theory Spec2Isabelle
  imports Main "HOL-Library.Multiset"
begin

section \<open>The notes client of \<^verbatim>\<open>src/public/script.js\<close>\<close>

text \<open>
  The class \<^verbatim>\<open>NotesApp\<close> keeps a list of notes, the note bound to the editor and a
  flag, and mirrors them in a handful of DOM elements. Every method becomes a function on
  a record of that state. What the program sends to its environment (HTTP requests,
  notifications) is appended to a log held in the same record, and what the environment
  answers (the result of \<^verbatim>\<open>fetch\<close>, the answer to \<^verbatim>\<open>confirm\<close>) is a parameter.

  Strings are HOL strings, read as sequences of code units below 256. Time stamps are the
  numbers of milliseconds that \<^verbatim>\<open>new Date(s)\<close> yields for a well-formed date string.

  Names are those of the source. Three of them are words that Isabelle reserves or
  already uses: the field \<^verbatim>\<open>id\<close> of a note is \<open>note_id\<close>, the type of notes is \<open>Note\<close>,
  and \<^verbatim>\<open>includes\<close> is \<open>includes_str\<close>.
\<close>

subsection \<open>Strings\<close>

text \<open>\<^verbatim>\<open>String.prototype.trim\<close>: white space and line terminators below 256.\<close>

definition isWhiteSpace :: "char \<Rightarrow> bool" where
  "isWhiteSpace c = (of_char c \<in> {9, 10, 11, 12, 13, 32, 160 :: nat})"

definition trim :: "string \<Rightarrow> string" where
  "trim s = rev (dropWhile isWhiteSpace (rev (dropWhile isWhiteSpace s)))"

text \<open>\<^verbatim>\<open>String.prototype.toLowerCase\<close> on code units below 256.\<close>

definition lowerChar :: "char \<Rightarrow> char" where
  "lowerChar c =
     (let n = (of_char c :: nat)
      in if (65 \<le> n \<and> n \<le> 90) \<or> (192 \<le> n \<and> n \<le> 222 \<and> n \<noteq> 215)
         then char_of (n + 32) else c)"

definition toLowerCase :: "string \<Rightarrow> string" where
  "toLowerCase s = map lowerChar s"

text \<open>\<^verbatim>\<open>s.includes(q)\<close>: \<open>q\<close> occurs in \<open>s\<close> as a contiguous run.\<close>

fun includes_str :: "string \<Rightarrow> string \<Rightarrow> bool" where
  "includes_str [] q = (q = [])"
| "includes_str (c # cs) q = (take (length q) (c # cs) = q \<or> includes_str cs q)"

text \<open>\<^verbatim>\<open>s.substring(0, n)\<close> for a non-negative \<open>n\<close>.\<close>

definition substring0 :: "string \<Rightarrow> nat \<Rightarrow> string" where
  "substring0 s n = take n s"

text \<open>
  \<^verbatim>\<open>escapeHtml\<close> writes the text into a fresh element and reads its \<^verbatim>\<open>innerHTML\<close>
  back: the HTML serialisation of a text node.
\<close>

definition escapeChar :: "char \<Rightarrow> string" where
  "escapeChar c =
     (if c = CHR ''&'' then ''&amp;''
      else if of_char c = (160 :: nat) then ''&nbsp;''
      else if c = CHR ''<'' then ''&lt;''
      else if c = CHR ''>'' then ''&gt;''
      else [c])"

definition escapeHtml :: "string \<Rightarrow> string" where
  "escapeHtml text = concat (map escapeChar text)"

subsection \<open>Notes and arrays of notes\<close>

record Note =
  note_id :: string
  title :: string
  content :: string
  createdAt :: int
  updatedAt :: int

text \<open>
  \<^verbatim>\<open>Array.prototype.sort\<close> with a comparison function. The sort is stable, and \<open>a\<close>
  stays before \<open>b\<close> unless the comparison of \<open>a\<close> with \<open>b\<close> is positive.
\<close>

fun insertBy :: "('a \<Rightarrow> 'a \<Rightarrow> int) \<Rightarrow> 'a \<Rightarrow> 'a list \<Rightarrow> 'a list" where
  "insertBy cmp x [] = [x]"
| "insertBy cmp x (y # ys) =
     (if cmp x y \<le> 0 then x # y # ys else y # insertBy cmp x ys)"

definition array_sort :: "('a \<Rightarrow> 'a \<Rightarrow> int) \<Rightarrow> 'a list \<Rightarrow> 'a list" where
  "array_sort cmp xs = foldr (insertBy cmp) xs []"

text \<open>The comparison of \<^verbatim>\<open>renderNotesList\<close>: \<^verbatim>\<open>new Date(b.updatedAt) - new Date(a.updatedAt)\<close>.\<close>

definition byUpdatedDesc :: "Note \<Rightarrow> Note \<Rightarrow> int" where
  "byUpdatedDesc a b = updatedAt b - updatedAt a"

text \<open>\<^verbatim>\<open>Array.prototype.findIndex\<close>: the first index whose element passes, or \<open>-1\<close>.\<close>

fun findIndex :: "('a \<Rightarrow> bool) \<Rightarrow> 'a list \<Rightarrow> int" where
  "findIndex p [] = -1"
| "findIndex p (x # xs) =
     (if p x then 0 else (let i = findIndex p xs in if i < 0 then -1 else i + 1))"

text \<open>
  \<^verbatim>\<open>xs[i] = v\<close> for an index that \<^verbatim>\<open>findIndex\<close> returned. At \<open>-1\<close> the assignment
  creates the property \<^verbatim>\<open>"-1"\<close> on the array object and leaves its elements and its
  length as they were.
\<close>

definition array_set :: "'a list \<Rightarrow> int \<Rightarrow> 'a \<Rightarrow> 'a list" where
  "array_set xs i v = (if 0 \<le> i \<and> i < int (length xs) then xs[nat i := v] else xs)"

subsection \<open>The environment\<close>

datatype http_method = GET | POST | PUT | DELETE

record http_request =
  req_method :: http_method
  req_url :: string
  req_body :: "(string \<times> string) option"

text \<open>
  A response carries its status and its body. \<open>json\<close> is what \<^verbatim>\<open>response.json()\<close>
  resolves to, \<open>None\<close> when the body does not parse and the promise rejects. The body of
  \<^verbatim>\<open>GET /api/notes\<close> is read as an array of notes, the body of a save as one note.
\<close>

record 'a response =
  status :: nat
  json :: "'a option"

definition ok :: "'a response \<Rightarrow> bool" where
  "ok r = (200 \<le> status r \<and> status r \<le> 299)"

datatype 'a fetch_result = Rejected | Resolved "'a response"

datatype notification_type = success | error

subsection \<open>The state of the application\<close>

datatype display = FromStylesheet | DisplayNone | DisplayFlex | DisplayInlineBlock

record note_item =
  item_active :: bool
  item_id :: string
  item_title :: string
  item_preview :: string
  item_date :: int

datatype list_markup = FromDocument | EmptyNotes | NoteItems "note_item list"

text \<open>
  The fields of \<^verbatim>\<open>NotesApp\<close>, the properties of the DOM elements that the methods
  write, the variable \<^verbatim>\<open>saveTimeout\<close> of \<^verbatim>\<open>bindEvents\<close> with the browser's table of
  pending timers and its clock, and the log of requests and notifications.
  \<open>noteMeta\<close> holds the two time stamps that \<^verbatim>\<open>updateNoteMeta\<close> formats, \<open>None\<close> for
  the empty text; \<open>item_date\<close> likewise holds the time stamp that \<^verbatim>\<open>formatDate\<close>
  prints in the user's locale.
\<close>

record app =
  "notes" :: "Note list"
  currentNote :: "Note option"
  isEditing :: bool
  notesList :: list_markup
  emptyState :: display
  noteForm :: display
  noteTitle :: string
  noteContent :: string
  noteMeta :: "(int \<times> int) option"
  deleteBtn :: display
  loadingIndicator :: display
  saveTimeout :: "nat option"
  timers :: "(nat \<times> nat) list"
  nextTimer :: nat
  clock :: nat
  requests :: "http_request list"
  notifications :: "(string \<times> notification_type) list"

definition showLoading :: "bool \<Rightarrow> app \<Rightarrow> app" where
  "showLoading show st = st\<lparr>loadingIndicator := (if show then DisplayFlex else DisplayNone)\<rparr>"

text \<open>
  \<^verbatim>\<open>showNotification\<close> appends an element to the document; the log keeps every
  notification that was shown (each is removed from the page three seconds later).
\<close>

definition showNotification :: "string \<Rightarrow> notification_type \<Rightarrow> app \<Rightarrow> app" where
  "showNotification message type st = st\<lparr>notifications := notifications st @ [(message, type)]\<rparr>"

definition showSuccess :: "string \<Rightarrow> app \<Rightarrow> app" where
  "showSuccess message st = showNotification message success st"

definition showError :: "string \<Rightarrow> app \<Rightarrow> app" where
  "showError message st = showNotification message error st"

text \<open>\<^verbatim>\<open>fetch(url, {method, body})\<close> as seen by the page: the request is on the log.\<close>

definition fetch :: "http_method \<Rightarrow> string \<Rightarrow> (string \<times> string) option \<Rightarrow> app \<Rightarrow> app" where
  "fetch m u b st =
     st\<lparr>requests := requests st @ [\<lparr>req_method = m, req_url = u, req_body = b\<rparr>]\<rparr>"

subsection \<open>Rendering and searching\<close>

definition renderItem :: "Note option \<Rightarrow> Note \<Rightarrow> note_item" where
  "renderItem cur n =
     \<lparr>item_active = (case cur of None \<Rightarrow> False | Some c \<Rightarrow> note_id c = note_id n),
      item_id = note_id n,
      item_title = escapeHtml (title n),
      item_preview = escapeHtml (substring0 (content n) 100)
                     @ (if length (content n) > 100 then ''...'' else ''''),
      item_date = updatedAt n\<rparr>"

text \<open>
  \<^verbatim>\<open>renderNotesList(filteredNotes = null)\<close>. Without an argument the array that is
  sorted, in place, is \<^verbatim>\<open>this.notes\<close> itself; an empty array given as argument is
  truthy and is the one rendered.
\<close>

definition renderNotesList :: "Note list option \<Rightarrow> app \<Rightarrow> app" where
  "renderNotesList filteredNotes st =
     (let notesToRender = (case filteredNotes of None \<Rightarrow> notes st | Some f \<Rightarrow> f)
      in if length notesToRender = 0 then st\<lparr>notesList := EmptyNotes\<rparr>
         else
           (let sortedNotes = array_sort byUpdatedDesc notesToRender;
                st1 = (case filteredNotes of None \<Rightarrow> st\<lparr>notes := sortedNotes\<rparr> | Some f \<Rightarrow> st)
            in st1\<lparr>notesList := NoteItems (map (renderItem (currentNote st)) sortedNotes)\<rparr>))"

definition matchesQuery :: "string \<Rightarrow> Note \<Rightarrow> bool" where
  "matchesQuery query n =
     (includes_str (toLowerCase (title n)) (toLowerCase query)
      \<or> includes_str (toLowerCase (content n)) (toLowerCase query))"

definition searchNotes :: "string \<Rightarrow> app \<Rightarrow> app" where
  "searchNotes query st =
     (if trim query = [] then renderNotesList None st
      else renderNotesList (Some (filter (matchesQuery query) (notes st))) st)"

subsection \<open>The editor\<close>

definition showNoteEditor :: "app \<Rightarrow> app" where
  "showNoteEditor st = st\<lparr>emptyState := DisplayNone, noteForm := DisplayFlex\<rparr>"

definition hideNoteEditor :: "app \<Rightarrow> app" where
  "hideNoteEditor st =
     st\<lparr>emptyState := DisplayFlex, noteForm := DisplayNone,
        isEditing := False, currentNote := None\<rparr>"

definition updateNoteMeta :: "Note \<Rightarrow> app \<Rightarrow> app" where
  "updateNoteMeta n st = st\<lparr>noteMeta := Some (createdAt n, updatedAt n)\<rparr>"

definition populateEditor :: "Note \<Rightarrow> app \<Rightarrow> app" where
  "populateEditor n st =
     (updateNoteMeta n (st\<lparr>noteTitle := title n, noteContent := content n\<rparr>))
       \<lparr>deleteBtn := DisplayInlineBlock\<rparr>"

definition clearEditor :: "app \<Rightarrow> app" where
  "clearEditor st =
     st\<lparr>noteTitle := [], noteContent := [], noteMeta := None, deleteBtn := DisplayNone\<rparr>"

definition selectNote :: "string \<Rightarrow> app \<Rightarrow> app" where
  "selectNote noteId st =
     (case find (\<lambda>n. note_id n = noteId) (notes st) of
        None \<Rightarrow> st
      | Some n \<Rightarrow>
          renderNotesList None
            (populateEditor n (showNoteEditor (st\<lparr>currentNote := Some n, isEditing := True\<rparr>))))"

text \<open>\<^verbatim>\<open>createNewNote\<close>; the focus it gives to the title field is not part of the state.\<close>

definition createNewNote :: "app \<Rightarrow> app" where
  "createNewNote st = clearEditor (showNoteEditor (st\<lparr>currentNote := None, isEditing := True\<rparr>))"

definition cancelEdit :: "app \<Rightarrow> app" where
  "cancelEdit st =
     (case currentNote st of
        Some c \<Rightarrow> populateEditor c st
      | None \<Rightarrow> hideNoteEditor st)"

subsection \<open>Saving\<close>

text \<open>
  \<^verbatim>\<open>saveNote(silent)\<close> runs in two parts, with the event loop free in between. The
  first part runs up to \<^verbatim>\<open>await fetch(...)\<close> and tells whether a request is now
  awaited; the second runs from there, on the state the application has when the
  request settles. \<open>saveNote\<close> is a save with nothing in between.
\<close>

definition saveNote_begin :: "bool \<Rightarrow> app \<Rightarrow> app \<times> bool" where
  "saveNote_begin silent st =
     (let title' = trim (noteTitle st); content' = trim (noteContent st)
      in if title' = [] \<or> content' = []
         then ((if \<not> silent then showError ''Title and content are required'' st else st), False)
         else
           (let st1 = (if \<not> silent then showLoading True st else st)
            in (case currentNote st1 of
                  Some c \<Rightarrow>
                    fetch PUT (''/api/notes/'' @ note_id c) (Some (title', content')) st1
                | None \<Rightarrow>
                    fetch POST ''/api/notes'' (Some (title', content')) st1,
                True)))"

definition saveNote_failed :: "bool \<Rightarrow> app \<Rightarrow> app" where
  "saveNote_failed silent st =
     (let st1 = (if \<not> silent then showError ''Failed to save note'' st else st)
      in if \<not> silent then showLoading False st1 else st1)"

definition saveNote_resume :: "bool \<Rightarrow> Note fetch_result \<Rightarrow> app \<Rightarrow> app" where
  "saveNote_resume silent fr st =
     (case fr of
        Rejected \<Rightarrow> saveNote_failed silent st
      | Resolved r \<Rightarrow>
          if \<not> ok r then saveNote_failed silent st
          else
            (case json r of
               None \<Rightarrow> saveNote_failed silent st
             | Some savedNote \<Rightarrow>
                 (let st1 =
                        (case currentNote st of
                           Some c \<Rightarrow>
                             st\<lparr>notes :=
                                  array_set (notes st)
                                    (findIndex (\<lambda>n. note_id n = note_id c) (notes st))
                                    savedNote\<rparr>
                         | None \<Rightarrow> st\<lparr>notes := notes st @ [savedNote]\<rparr>);
                      st2 = st1\<lparr>currentNote := Some savedNote\<rparr>;
                      st3 = renderNotesList None st2;
                      st4 = updateNoteMeta savedNote st3;
                      st5 = st4\<lparr>deleteBtn := DisplayInlineBlock\<rparr>;
                      st6 = (if \<not> silent then showSuccess ''Note saved successfully'' st5
                             else st5)
                  in if \<not> silent then showLoading False st6 else st6)))"

definition saveNote :: "bool \<Rightarrow> Note fetch_result \<Rightarrow> app \<Rightarrow> app" where
  "saveNote silent fr st =
     (case saveNote_begin silent st of
        (st1, True) \<Rightarrow> saveNote_resume silent fr st1
      | (st1, False) \<Rightarrow> st1)"

subsection \<open>Deleting\<close>

text \<open>
  \<^verbatim>\<open>deleteNote\<close>, in two parts like a save; \<open>confirmed\<close> is the answer to
  \<^verbatim>\<open>confirm(...)\<close>. The second part reads \<^verbatim>\<open>this.currentNote.id\<close> inside the
  callback of \<^verbatim>\<open>filter\<close>: with no current note that throws on the first element,
  before \<^verbatim>\<open>this.notes\<close> is assigned, and the \<^verbatim>\<open>catch\<close> block reports a failure.
\<close>

definition deleteNote_begin :: "bool \<Rightarrow> app \<Rightarrow> app \<times> bool" where
  "deleteNote_begin confirmed st =
     (case currentNote st of
        None \<Rightarrow> (st, False)
      | Some c \<Rightarrow>
          if \<not> confirmed then (st, False)
          else (fetch DELETE (''/api/notes/'' @ note_id c) None (showLoading True st), True))"

definition deleteNote_failed :: "app \<Rightarrow> app" where
  "deleteNote_failed st = showLoading False (showError ''Failed to delete note'' st)"

definition deleteNote_done :: "Note list \<Rightarrow> app \<Rightarrow> app" where
  "deleteNote_done remaining st =
     showLoading False
       (showSuccess ''Note deleted successfully''
          (hideNoteEditor (renderNotesList None (st\<lparr>notes := remaining\<rparr>))))"

definition deleteNote_resume :: "unit fetch_result \<Rightarrow> app \<Rightarrow> app" where
  "deleteNote_resume fr st =
     (case fr of
        Rejected \<Rightarrow> deleteNote_failed st
      | Resolved r \<Rightarrow>
          if \<not> ok r then deleteNote_failed st
          else
            (case currentNote st of
               Some c \<Rightarrow> deleteNote_done (filter (\<lambda>n. note_id n \<noteq> note_id c) (notes st)) st
             | None \<Rightarrow> if notes st = [] then deleteNote_done [] st else deleteNote_failed st))"

definition deleteNote :: "bool \<Rightarrow> unit fetch_result \<Rightarrow> app \<Rightarrow> app" where
  "deleteNote confirmed fr st =
     (case deleteNote_begin confirmed st of
        (st1, True) \<Rightarrow> deleteNote_resume fr st1
      | (st1, False) \<Rightarrow> st1)"

subsection \<open>Loading\<close>

definition loadNotes_begin :: "app \<Rightarrow> app" where
  "loadNotes_begin st = fetch GET ''/api/notes'' None (showLoading True st)"

definition loadNotes_failed :: "app \<Rightarrow> app" where
  "loadNotes_failed st = showLoading False (showError ''Failed to load notes'' st)"

text \<open>The second part of \<^verbatim>\<open>loadNotes\<close>. It never reads the status of the response.\<close>

definition loadNotes_resume :: "Note list fetch_result \<Rightarrow> app \<Rightarrow> app" where
  "loadNotes_resume fr st =
     (case fr of
        Rejected \<Rightarrow> loadNotes_failed st
      | Resolved r \<Rightarrow>
          (case json r of
             None \<Rightarrow> loadNotes_failed st
           | Some ns \<Rightarrow> showLoading False (renderNotesList None (st\<lparr>notes := ns\<rparr>))))"

definition loadNotes :: "Note list fetch_result \<Rightarrow> app \<Rightarrow> app" where
  "loadNotes fr st = loadNotes_resume fr (loadNotes_begin st)"

subsection \<open>The auto-save timer\<close>

text \<open>
  \<open>timers\<close> is the browser's table of pending timers, each a handle with the time at
  which it is due. It holds the timers that \<^verbatim>\<open>autoSave\<close> sets; the timers by which
  \<^verbatim>\<open>showNotification\<close> removes its element again are left out.
  \<^verbatim>\<open>clearTimeout(undefined)\<close> does nothing.
\<close>

definition clearTimeout :: "nat option \<Rightarrow> app \<Rightarrow> app" where
  "clearTimeout h st =
     (case h of
        None \<Rightarrow> st
      | Some i \<Rightarrow> st\<lparr>timers := filter (\<lambda>t. fst t \<noteq> i) (timers st)\<rparr>)"

definition setTimeout :: "nat \<Rightarrow> app \<Rightarrow> app \<times> nat" where
  "setTimeout delay st =
     (st\<lparr>timers := timers st @ [(nextTimer st, clock st + delay)],
         nextTimer := nextTimer st + 1\<rparr>,
      nextTimer st)"

text \<open>The closure \<^verbatim>\<open>autoSave\<close> of \<^verbatim>\<open>bindEvents\<close>, the listener of both fields.\<close>

definition autoSave :: "app \<Rightarrow> app" where
  "autoSave st =
     (case setTimeout 2000 (clearTimeout (saveTimeout st) st) of
        (st1, h) \<Rightarrow> st1\<lparr>saveTimeout := Some h\<rparr>)"

text \<open>The function that \<^verbatim>\<open>autoSave\<close> hands to \<^verbatim>\<open>setTimeout\<close>, up to the awaited request.\<close>

definition autoSave_timeout :: "app \<Rightarrow> app \<times> bool" where
  "autoSave_timeout st =
     (if isEditing st \<and> currentNote st \<noteq> None then saveNote_begin True st else (st, False))"

text \<open>The user changes a field: the browser stores the value and raises \<^verbatim>\<open>input\<close>.\<close>

definition inputTitle :: "string \<Rightarrow> app \<Rightarrow> app" where
  "inputTitle v st = autoSave (st\<lparr>noteTitle := v\<rparr>)"

definition inputContent :: "string \<Rightarrow> app \<Rightarrow> app" where
  "inputContent v st = autoSave (st\<lparr>noteContent := v\<rparr>)"

definition timePasses :: "nat \<Rightarrow> app \<Rightarrow> app" where
  "timePasses ms st = st\<lparr>clock := clock st + ms\<rparr>"

text \<open>The browser runs the first pending timer that is due, and drops it from the table.\<close>

definition timerFires :: "app \<Rightarrow> app \<times> bool" where
  "timerFires st =
     (case find (\<lambda>t. snd t \<le> clock st) (timers st) of
        None \<Rightarrow> (st, False)
      | Some t \<Rightarrow> autoSave_timeout (st\<lparr>timers := filter (\<lambda>u. fst u \<noteq> fst t) (timers st)\<rparr>))"

subsection \<open>Runs of the application\<close>

text \<open>
  The constructor: the three fields, the elements as the document has them, the
  listeners, and the first part of \<^verbatim>\<open>loadNotes\<close>.
\<close>

definition NotesApp :: app where
  "NotesApp =
     loadNotes_begin
       \<lparr>notes = [], currentNote = None, isEditing = False,
        notesList = FromDocument, emptyState = FromStylesheet, noteForm = FromStylesheet,
        noteTitle = [], noteContent = [], noteMeta = None,
        deleteBtn = FromStylesheet, loadingIndicator = FromStylesheet,
        saveTimeout = None, timers = [], nextTimer = 1, clock = 0,
        requests = [], notifications = []\<rparr>"

text \<open>
  What can happen to the page: the listeners of \<^verbatim>\<open>bindEvents\<close> and of the rendered
  items, the passing of time, a due timer, and a request that settles. The steps do not
  track which requests are open, so a response may arrive at any moment: the runs of the
  page in a browser, with responses of the types above, are among the runs here.
\<close>

datatype event =
    ClickNewNote
  | ClickSave
  | ClickDelete bool
  | ClickCancel
  | SearchInput string
  | ClickNoteItem string
  | InputTitle string
  | InputContent string
  | TimePasses nat
  | TimerFires
  | LoadSettles "Note list fetch_result"
  | SaveSettles bool "Note fetch_result"
  | DeleteSettles "unit fetch_result"

fun step :: "event \<Rightarrow> app \<Rightarrow> app" where
  "step ClickNewNote st = createNewNote st"
| "step ClickSave st = fst (saveNote_begin False st)"
| "step (ClickDelete confirmed) st = fst (deleteNote_begin confirmed st)"
| "step ClickCancel st = cancelEdit st"
| "step (SearchInput query) st = searchNotes query st"
| "step (ClickNoteItem noteId) st = selectNote noteId st"
| "step (InputTitle v) st = inputTitle v st"
| "step (InputContent v) st = inputContent v st"
| "step (TimePasses ms) st = timePasses ms st"
| "step TimerFires st = fst (timerFires st)"
| "step (LoadSettles fr) st = loadNotes_resume fr st"
| "step (SaveSettles silent fr) st = saveNote_resume silent fr st"
| "step (DeleteSettles fr) st = deleteNote_resume fr st"

inductive reachable :: "app \<Rightarrow> bool" where
  start: "reachable NotesApp"
| after: "reachable st \<Longrightarrow> reachable (step e st)"

text \<open>The three editor states of the page, read from the two fields that hold them.\<close>

definition Closed :: "app \<Rightarrow> bool" where
  "Closed st = (currentNote st = None \<and> \<not> isEditing st)"

definition Creating :: "app \<Rightarrow> bool" where
  "Creating st = (currentNote st = None \<and> isEditing st)"

definition Editing :: "Note \<Rightarrow> app \<Rightarrow> bool" where
  "Editing n st = (currentNote st = Some n \<and> isEditing st)"

subsection \<open>Notions of the specification\<close>

text \<open>
  The words of the specification that the claims use, each defined on its own and then
  related to what the code computes: a blank query, containment without regard to case,
  a list with the most recently updated note first, and the items of a rendered list.
\<close>

definition blank :: "string \<Rightarrow> bool" where
  "blank q = list_all isWhiteSpace q"

definition contains_ci :: "string \<Rightarrow> string \<Rightarrow> bool" where
  "contains_ci s q = (\<exists>u v. toLowerCase s = u @ toLowerCase q @ v)"

definition newestFirst :: "Note list \<Rightarrow> bool" where
  "newestFirst xs = sorted_wrt (\<lambda>a b. updatedAt b \<le> updatedAt a) xs"

definition shownItems :: "list_markup \<Rightarrow> note_item list" where
  "shownItems m = (case m of NoteItems items \<Rightarrow> items | _ \<Rightarrow> [])"

text \<open>The auto-save timer is the only pending timer, and \<^verbatim>\<open>saveTimeout\<close> holds its handle.\<close>

definition singleTimer :: "app \<Rightarrow> bool" where
  "singleTimer st =
     (case timers st of [] \<Rightarrow> True | t # ts \<Rightarrow> ts = [] \<and> saveTimeout st = Some (fst t))"

subsection \<open>Example data\<close>

definition noteA :: Note where
  "noteA = \<lparr>note_id = ''a'', title = ''Shopping'', content = ''Milk and eggs'',
            createdAt = 1000, updatedAt = 1000\<rparr>"

definition noteB :: Note where
  "noteB = \<lparr>note_id = ''b'', title = ''Ideas'', content = ''Write more tests'',
            createdAt = 2000, updatedAt = 2000\<rparr>"

definition noteA2 :: Note where
  "noteA2 = \<lparr>note_id = ''a'', title = ''Shopping'', content = ''Milk'',
             createdAt = 1000, updatedAt = 3000\<rparr>"

definition note1 :: Note where
  "note1 = \<lparr>note_id = ''n1'', title = ''Hello'', content = ''World'',
            createdAt = 5000, updatedAt = 5000\<rparr>"

text \<open>A note of 120 characters and a note of exactly 100.\<close>

definition longNote :: Note where
  "longNote = \<lparr>note_id = ''l'', title = ''Long'', content = replicate 120 (CHR ''x''),
               createdAt = 1000, updatedAt = 1000\<rparr>"

definition exactNote :: Note where
  "exactNote = \<lparr>note_id = ''e'', title = ''Exact'', content = replicate 100 (CHR ''x''),
                createdAt = 1000, updatedAt = 1000\<rparr>"

text \<open>The page after its first load, with the two notes \<open>A\<close> and \<open>B\<close>.\<close>

definition loadedAB :: app where
  "loadedAB = step (LoadSettles (Resolved \<lparr>status = 200, json = Some [noteA, noteB]\<rparr>)) NotesApp"

text \<open>Note \<open>A\<close> selected, then its content edited, then two seconds without input.\<close>

definition editingA :: app where
  "editingA = step (ClickNoteItem ''a'') loadedAB"

definition editedA :: app where
  "editedA = step (InputContent ''Milk'') editingA"

definition editedA_idle :: app where
  "editedA_idle = step (TimePasses 2000) editedA"

text \<open>
  The timer of that edit fires and sends the silent save of \<open>A\<close>; while the request is
  open the user clicks note \<open>B\<close> in the list; then the server answers the save.
\<close>

definition autosaveSent :: app where
  "autosaveSent = step TimerFires editedA_idle"

definition switchedToB :: app where
  "switchedToB = step (ClickNoteItem ''b'') autosaveSent"

definition autosaveSettled :: app where
  "autosaveSettled =
     step (SaveSettles True (Resolved \<lparr>status = 200, json = Some noteA2\<rparr>)) switchedToB"

text \<open>
  The run goes on: the user adds a word to the content shown in the editor, two seconds
  pass, and the timer of that edit fires.
\<close>

definition autosaveSettled_edited :: app where
  "autosaveSettled_edited =
     step (TimePasses 2000) (step (InputContent ''Write more tests now'') autosaveSettled)"

definition autosaveSent_again :: app where
  "autosaveSent_again = step TimerFires autosaveSettled_edited"

text \<open>
  Note \<open>A\<close> selected and its delete confirmed; while the request is open the user clicks
  the button for a new note, or note \<open>B\<close> in the list; then the server answers the delete
  with status 204.
\<close>

definition deleteSent :: app where
  "deleteSent = step (ClickDelete True) editingA"

definition deleteSent_newNote :: app where
  "deleteSent_newNote = step ClickNewNote deleteSent"

definition deleteSettled_newNote :: app where
  "deleteSettled_newNote =
     step (DeleteSettles (Resolved \<lparr>status = 204, json = None\<rparr>)) deleteSent_newNote"

definition deleteSent_switchedToB :: app where
  "deleteSent_switchedToB = step (ClickNoteItem ''b'') deleteSent"

definition deleteSettled_switchedToB :: app where
  "deleteSettled_switchedToB =
     step (DeleteSettles (Resolved \<lparr>status = 204, json = None\<rparr>)) deleteSent_switchedToB"

text \<open>
  The silent save of \<open>A\<close> is open when the user confirms the delete of \<open>A\<close>; the server
  answers the delete first and the save afterwards; then the delete is invoked again.
\<close>

definition autosaveSent_deleted :: app where
  "autosaveSent_deleted =
     step (DeleteSettles (Resolved \<lparr>status = 204, json = None\<rparr>))
       (step (ClickDelete True) autosaveSent)"

definition autosaveSettled_deleted :: app where
  "autosaveSettled_deleted =
     step (SaveSettles True (Resolved \<lparr>status = 200, json = Some noteA2\<rparr>)) autosaveSent_deleted"

definition deleteSent_again :: app where
  "deleteSent_again = step (ClickDelete True) autosaveSettled_deleted"

text \<open>
  A new note: the editor is opened, title and content are typed, the note is saved by the
  button and the server answers at once; two seconds later the timer of the last
  keystroke is due.
\<close>

definition draftOpened :: app where
  "draftOpened = step ClickNewNote loadedAB"

definition draftTitled :: app where
  "draftTitled = step (InputTitle ''Hello'') draftOpened"

definition draftTyped :: app where
  "draftTyped = step (InputContent ''World'') draftTitled"

definition draftTyped_idle :: app where
  "draftTyped_idle = step (TimePasses 2000) draftTyped"

definition draftSaved :: app where
  "draftSaved = saveNote False (Resolved \<lparr>status = 201, json = Some note1\<rparr>) draftTyped"

definition draftSaved_idle :: app where
  "draftSaved_idle = step (TimePasses 2000) draftSaved"

text \<open>A new note whose title is only white space.\<close>

definition draftBlank :: app where
  "draftBlank = step (InputContent ''World'') (step (InputTitle ''  '') draftOpened)"

section \<open>Properties\<close>

subsection \<open>Sorting, searching in strings, rendering\<close>

lemma mset_insertBy: "mset (insertBy cmp x ys) = add_mset x (mset ys)"
  by (induction ys) auto

lemma mset_array_sort: "mset (array_sort cmp xs) = mset xs"
  by (induction xs) (auto simp: array_sort_def mset_insertBy)

lemma set_insertBy: "set (insertBy cmp x ys) = insert x (set ys)"
  by (induction ys) auto

lemma set_array_sort: "set (array_sort cmp xs) = set xs"
  using mset_array_sort[of cmp xs] by (metis set_mset_mset)

lemma array_sort_Nil_iff: "array_sort cmp xs = [] \<longleftrightarrow> xs = []"
  using set_array_sort[of cmp xs] by (metis set_empty)

lemma newestFirst_insertBy:
  "newestFirst ys \<Longrightarrow> newestFirst (insertBy byUpdatedDesc x ys)"
  unfolding newestFirst_def
  by (induction ys) (auto simp: byUpdatedDesc_def set_insertBy)

lemma newestFirst_array_sort: "newestFirst (array_sort byUpdatedDesc xs)"
proof (induction xs)
  case Nil
  show ?case by (simp add: array_sort_def newestFirst_def)
next
  case (Cons x xs)
  then show ?case by (simp add: array_sort_def newestFirst_insertBy)
qed

lemma insertBy_front:
  "\<forall>y\<in>set ys. updatedAt y \<le> updatedAt x \<Longrightarrow> insertBy byUpdatedDesc x ys = x # ys"
  by (cases ys) (auto simp: byUpdatedDesc_def)

lemma array_sort_newestFirst: "newestFirst xs \<Longrightarrow> array_sort byUpdatedDesc xs = xs"
  unfolding newestFirst_def
  by (induction xs) (auto simp: array_sort_def insertBy_front)

lemma insertBy_stable:
  "filter (\<lambda>n. updatedAt n = t) (insertBy byUpdatedDesc x ys) =
     (if updatedAt x = t then x # filter (\<lambda>n. updatedAt n = t) ys
      else filter (\<lambda>n. updatedAt n = t) ys)"
  by (induction ys) (auto simp: byUpdatedDesc_def)

lemma array_sort_stable:
  "filter (\<lambda>n. updatedAt n = t) (array_sort byUpdatedDesc xs) = filter (\<lambda>n. updatedAt n = t) xs"
  by (induction xs) (auto simp: array_sort_def insertBy_stable)

lemma includes_str_iff: "includes_str s q \<longleftrightarrow> (\<exists>u v. s = u @ q @ v)"
proof (induction s)
  case Nil
  show ?case by auto
next
  case (Cons c cs)
  have "take (length q) (c # cs) = q \<longleftrightarrow> (\<exists>v. c # cs = q @ v)"
    by (metis append_eq_conv_conj append_take_drop_id)
  moreover have "(\<exists>u v. c # cs = u @ q @ v) \<longleftrightarrow> (\<exists>v. c # cs = q @ v) \<or> (\<exists>u v. cs = u @ q @ v)"
  proof
    assume "\<exists>u v. c # cs = u @ q @ v"
    then obtain u v where uv: "c # cs = u @ q @ v" by blast
    show "(\<exists>v. c # cs = q @ v) \<or> (\<exists>u v. cs = u @ q @ v)"
    proof (cases u)
      case Nil
      with uv show ?thesis by auto
    next
      case (Cons a u')
      with uv have "cs = u' @ q @ v" by simp
      then show ?thesis by blast
    qed
  next
    assume "(\<exists>v. c # cs = q @ v) \<or> (\<exists>u v. cs = u @ q @ v)"
    then show "\<exists>u v. c # cs = u @ q @ v"
    proof
      assume "\<exists>v. c # cs = q @ v"
      then obtain v where "c # cs = [] @ q @ v" by auto
      then show ?thesis by blast
    next
      assume "\<exists>u v. cs = u @ q @ v"
      then obtain u v where "c # cs = (c # u) @ q @ v" by auto
      then show ?thesis by blast
    qed
  qed
  ultimately show ?case using Cons.IH by simp
qed

lemma matchesQuery_iff:
  "matchesQuery q n \<longleftrightarrow> contains_ci (title n) q \<or> contains_ci (content n) q"
  by (simp add: matchesQuery_def contains_ci_def includes_str_iff)

lemma trim_Nil_iff: "trim q = [] \<longleftrightarrow> blank q"
proof -
  have "dropWhile isWhiteSpace q = [] \<longleftrightarrow> list_all isWhiteSpace q"
    by (induction q) auto
  moreover have "rev (dropWhile isWhiteSpace (rev (dropWhile isWhiteSpace q))) = []
      \<longleftrightarrow> dropWhile isWhiteSpace q = []"
    by (metis (no_types, lifting) dropWhile_eq_Nil_conv rev_is_Nil_conv set_rev dropWhile_idem
        set_dropWhileD)
  ultimately show ?thesis by (simp add: trim_def blank_def)
qed

lemma notes_renderNotesList_None:
  "notes (renderNotesList None st) = array_sort byUpdatedDesc (notes st)"
  by (cases "notes st") (simp_all add: renderNotesList_def Let_def array_sort_def)

lemma notes_renderNotesList_Some: "notes (renderNotesList (Some f) st) = notes st"
  by (simp add: renderNotesList_def Let_def)

lemma notesList_renderNotesList:
  "notesList (renderNotesList f st) =
     (let shown = array_sort byUpdatedDesc (case f of None \<Rightarrow> notes st | Some g \<Rightarrow> g)
      in if shown = [] then EmptyNotes else NoteItems (map (renderItem (currentNote st)) shown))"
  by (cases f) (auto simp: renderNotesList_def Let_def array_sort_Nil_iff)

lemma renderNotesList_frame:
  "renderNotesList f st =
     st\<lparr>notes := notes (renderNotesList f st), notesList := notesList (renderNotesList f st)\<rparr>"
  by (cases f) (auto simp: renderNotesList_def Let_def)

lemmas ui_defs =
  showLoading_def showNotification_def showSuccess_def showError_def fetch_def
  showNoteEditor_def hideNoteEditor_def updateNoteMeta_def populateEditor_def clearEditor_def

lemma newestFirst_Nil: "newestFirst []"
  by (simp add: newestFirst_def)

lemma renderNotesList_fields:
  "requests (renderNotesList f st) = requests st"
  "currentNote (renderNotesList f st) = currentNote st"
  "isEditing (renderNotesList f st) = isEditing st"
  "noteTitle (renderNotesList f st) = noteTitle st"
  "noteContent (renderNotesList f st) = noteContent st"
  by (cases f; simp add: renderNotesList_def Let_def)+

lemma findIndex_range:
  "findIndex p xs = -1 \<or> (0 \<le> findIndex p xs \<and> findIndex p xs < int (length xs))"
  by (induction xs) (auto simp: Let_def)

lemma array_set_findIndex_Cons:
  "array_set (x # xs) (findIndex p (x # xs)) v =
     (if p x then v # xs else x # array_set xs (findIndex p xs) v)"
  using findIndex_range [of p xs]
  by (auto simp: array_set_def Let_def nat_add_distrib)

lemma filter_others_array_set:
  "note_id s = x \<Longrightarrow>
   filter (\<lambda>n. note_id n \<noteq> x) (array_set xs (findIndex (\<lambda>n. note_id n = x) xs) s) =
     filter (\<lambda>n. note_id n \<noteq> x) xs"
proof (induction xs)
  case Nil
  show ?case by (simp add: array_set_def)
next
  case (Cons y ys)
  then show ?case by (simp add: array_set_findIndex_Cons del: findIndex.simps)
qed

lemma filter_same_array_set:
  "note_id s = x \<Longrightarrow> distinct (map note_id xs) \<Longrightarrow> x \<in> note_id ` set xs \<Longrightarrow>
   filter (\<lambda>n. note_id n = x) (array_set xs (findIndex (\<lambda>n. note_id n = x) xs) s) = [s]"
proof (induction xs)
  case Nil
  then show ?case by simp
next
  case (Cons y ys)
  show ?case
  proof (cases "note_id y = x")
    case True
    from Cons.prems(2) have "note_id y \<notin> set (map note_id ys)" by simp
    with True have "\<forall>n\<in>set ys. note_id n \<noteq> x" by (metis image_eqI list.set_map)
    then have "filter (\<lambda>n. note_id n = x) ys = []" by (simp add: filter_empty_conv)
    with True Cons.prems(1) show ?thesis
      by (simp add: array_set_findIndex_Cons del: findIndex.simps)
  next
    case False
    with Cons show ?thesis by (auto simp: array_set_findIndex_Cons simp del: findIndex.simps)
  qed
qed

lemma filter_array_sort_single:
  assumes "filter p xs = [s]"
  shows "filter p (array_sort cmp xs) = [s]"
proof -
  have "mset (filter p (array_sort cmp xs)) = mset (filter p xs)"
    by (simp add: mset_array_sort)
  then have "mset (filter p (array_sort cmp xs)) = {#s#}"
    using assms by simp
  then show ?thesis by (simp only: mset_single_iff)
qed

subsection \<open>The collection through the operations\<close>

lemma notes_saveNote_begin: "notes (fst (saveNote_begin silent st)) = notes st"
  by (simp add: saveNote_begin_def Let_def showError_def showNotification_def showLoading_def
      fetch_def split: option.splits)

lemma notes_deleteNote_begin: "notes (fst (deleteNote_begin confirmed st)) = notes st"
  by (simp add: deleteNote_begin_def showLoading_def fetch_def split: option.splits)

lemma notes_cancelEdit: "notes (cancelEdit st) = notes st"
  by (simp add: cancelEdit_def populateEditor_def updateNoteMeta_def hideNoteEditor_def
      split: option.splits)

lemma notes_createNewNote: "notes (createNewNote st) = notes st"
  by (simp add: createNewNote_def clearEditor_def showNoteEditor_def)

lemma notes_autoSave: "notes (autoSave st) = notes st"
  by (simp add: autoSave_def setTimeout_def clearTimeout_def split: option.splits)

lemma notes_timerFires: "notes (fst (timerFires st)) = notes st"
  by (simp add: timerFires_def autoSave_timeout_def notes_saveNote_begin split: option.splits)

lemma newestFirst_searchNotes: "newestFirst (notes st) \<Longrightarrow> newestFirst (notes (searchNotes q st))"
  by (simp add: searchNotes_def notes_renderNotesList_None notes_renderNotesList_Some
      newestFirst_array_sort)

lemma newestFirst_selectNote: "newestFirst (notes st) \<Longrightarrow> newestFirst (notes (selectNote i st))"
  by (simp add: selectNote_def notes_renderNotesList_None newestFirst_array_sort
      split: option.splits)

lemma newestFirst_loadNotes_resume:
  "newestFirst (notes st) \<Longrightarrow> newestFirst (notes (loadNotes_resume fr st))"
  by (simp add: loadNotes_resume_def loadNotes_failed_def showLoading_def showError_def
      showNotification_def notes_renderNotesList_None newestFirst_array_sort
      split: fetch_result.splits option.splits)

lemma notes_saveNote_failed: "notes (saveNote_failed silent st) = notes st"
  by (simp add: saveNote_failed_def Let_def showLoading_def showError_def showNotification_def)

lemma notes_saveNote_saved:
  "ok r \<Longrightarrow> json r = Some s \<Longrightarrow>
   notes (saveNote_resume silent (Resolved r) st) =
     array_sort byUpdatedDesc
       (case currentNote st of
          Some c \<Rightarrow> array_set (notes st) (findIndex (\<lambda>n. note_id n = note_id c) (notes st)) s
        | None \<Rightarrow> notes st @ [s])"
  by (simp add: saveNote_resume_def Let_def showLoading_def showSuccess_def showNotification_def
      updateNoteMeta_def notes_renderNotesList_None split: option.splits)

lemma newestFirst_saveNote_resume:
  assumes nf: "newestFirst (notes st)"
  shows "newestFirst (notes (saveNote_resume silent fr st))"
proof (cases fr)
  case Rejected
  then show ?thesis using nf by (simp add: saveNote_resume_def notes_saveNote_failed)
next
  case (Resolved r)
  show ?thesis
  proof (cases "ok r \<and> json r \<noteq> None")
    case True
    then obtain s where "ok r" "json r = Some s" by auto
    then show ?thesis using Resolved
      by (simp only: notes_saveNote_saved newestFirst_array_sort)
  next
    case False
    then show ?thesis using Resolved nf
      by (auto simp: saveNote_resume_def notes_saveNote_failed)
  qed
qed

lemma notes_deleteNote_failed: "notes (deleteNote_failed st) = notes st"
  by (simp add: deleteNote_failed_def showLoading_def showError_def showNotification_def)

lemma notes_deleteNote_done: "notes (deleteNote_done remaining st) = array_sort byUpdatedDesc remaining"
  by (simp add: deleteNote_done_def showLoading_def showSuccess_def showNotification_def
      hideNoteEditor_def notes_renderNotesList_None)

lemma newestFirst_deleteNote_resume:
  "newestFirst (notes st) \<Longrightarrow> newestFirst (notes (deleteNote_resume fr st))"
  by (simp add: deleteNote_resume_def notes_deleteNote_failed notes_deleteNote_done
      newestFirst_array_sort newestFirst_Nil split: fetch_result.splits option.splits)

lemma newestFirst_step: "newestFirst (notes st) \<Longrightarrow> newestFirst (notes (step e st))"
  by (cases e)
    (simp_all add: notes_createNewNote notes_saveNote_begin notes_deleteNote_begin
      notes_cancelEdit newestFirst_searchNotes newestFirst_selectNote inputTitle_def
      inputContent_def notes_autoSave timePasses_def notes_timerFires
      newestFirst_loadNotes_resume newestFirst_saveNote_resume newestFirst_deleteNote_resume)

lemma notes_NotesApp: "notes NotesApp = []"
  by (simp add: NotesApp_def loadNotes_begin_def fetch_def showLoading_def)

lemma reachable_newestFirst: "reachable st \<Longrightarrow> newestFirst (notes st)"
proof (induction rule: reachable.induct)
  case start
  show ?case by (simp add: notes_NotesApp newestFirst_def)
next
  case (after st e)
  then show ?case by (simp add: newestFirst_step)
qed

lemma saveNote_valid:
  "trim (noteTitle st) \<noteq> [] \<Longrightarrow> trim (noteContent st) \<noteq> [] \<Longrightarrow>
   saveNote silent fr st = saveNote_resume silent fr (fst (saveNote_begin silent st))"
  by (simp add: saveNote_def saveNote_begin_def Let_def)

lemma currentNote_saveNote_begin: "currentNote (fst (saveNote_begin silent st)) = currentNote st"
  by (simp add: saveNote_begin_def Let_def ui_defs split: option.splits)

lemma isEditing_saveNote_begin: "isEditing (fst (saveNote_begin silent st)) = isEditing st"
  by (simp add: saveNote_begin_def Let_def ui_defs split: option.splits)

lemma editor_saveNote_saved:
  "ok r \<Longrightarrow> json r = Some s \<Longrightarrow>
   currentNote (saveNote_resume silent (Resolved r) st) = Some s
   \<and> isEditing (saveNote_resume silent (Resolved r) st) = isEditing st"
  by (simp add: saveNote_resume_def Let_def ui_defs renderNotesList_fields split: option.splits)

lemma deleteNote_ok:
  "currentNote st = Some c \<Longrightarrow> ok r \<Longrightarrow>
   deleteNote True (Resolved r) st =
     deleteNote_done (filter (\<lambda>n. note_id n \<noteq> note_id c) (notes st))
       (fetch DELETE (''/api/notes/'' @ note_id c) None (showLoading True st))"
  by (simp add: deleteNote_def deleteNote_begin_def deleteNote_resume_def fetch_def
      showLoading_def)

lemma deleteNote_no_current: "currentNote st = None \<Longrightarrow> deleteNote confirmed fr st = st"
  by (simp add: deleteNote_def deleteNote_begin_def)

lemma Closed_deleteNote_done: "Closed (deleteNote_done remaining st)"
  by (simp add: Closed_def deleteNote_done_def showLoading_def showSuccess_def
      showNotification_def hideNoteEditor_def)

text \<open>
  The second part of a successful save, on the state in which the answer arrives: when the
  editor is bound to a note with the identifier of the answer, the answer is the one note
  with that identifier; and whether the editor is bound to such a note or to none, the
  notes with another identifier stay.
\<close>

lemma saveNote_resume_replaces:
  assumes "ok r" and "json r = Some s"
    and "distinct (map note_id (notes st))" and "note_id s \<in> note_id ` set (notes st)"
    and "currentNote st = Some c" and "note_id c = note_id s"
  shows "filter (\<lambda>n. note_id n = note_id s) (notes (saveNote_resume silent (Resolved r) st)) = [s]"
proof -
  have "notes (saveNote_resume silent (Resolved r) st) =
      array_sort byUpdatedDesc
        (array_set (notes st) (findIndex (\<lambda>n. note_id n = note_id s) (notes st)) s)"
    using assms(1,2,5,6) by (simp add: notes_saveNote_saved)
  moreover have "filter (\<lambda>n. note_id n = note_id s)
      (array_set (notes st) (findIndex (\<lambda>n. note_id n = note_id s) (notes st)) s) = [s]"
    using refl assms(3,4) by (rule filter_same_array_set)
  ultimately show ?thesis
    by (simp add: filter_array_sort_single)
qed

lemma saveNote_resume_others:
  assumes "ok r" and "json r = Some s"
    and "case currentNote st of None \<Rightarrow> True | Some c \<Rightarrow> note_id c = note_id s"
  shows "mset (filter (\<lambda>n. note_id n \<noteq> note_id s)
           (notes (saveNote_resume silent (Resolved r) st))) =
         mset (filter (\<lambda>n. note_id n \<noteq> note_id s) (notes st))"
proof -
  have n: "notes (saveNote_resume silent (Resolved r) st) =
      array_sort byUpdatedDesc
       (case currentNote st of
          Some c \<Rightarrow> array_set (notes st) (findIndex (\<lambda>n. note_id n = note_id c) (notes st)) s
        | None \<Rightarrow> notes st @ [s])"
    using assms(1,2) by (rule notes_saveNote_saved)
  have "filter (\<lambda>n. note_id n \<noteq> note_id s)
       (case currentNote st of
          Some c \<Rightarrow> array_set (notes st) (findIndex (\<lambda>n. note_id n = note_id c) (notes st)) s
        | None \<Rightarrow> notes st @ [s]) = filter (\<lambda>n. note_id n \<noteq> note_id s) (notes st)"
    using assms(3) by (auto simp: filter_others_array_set split: option.splits)
  then have "mset (filter (\<lambda>n. note_id n \<noteq> note_id s)
       (array_sort byUpdatedDesc (case currentNote st of
          Some c \<Rightarrow> array_set (notes st) (findIndex (\<lambda>n. note_id n = note_id c) (notes st)) s
        | None \<Rightarrow> notes st @ [s]))) = mset (filter (\<lambda>n. note_id n \<noteq> note_id s) (notes st))"
    by (metis mset_filter mset_array_sort)
  then show ?thesis
    by (simp only: n)
qed

text \<open>A successful delete of the bound note, with nothing between request and answer.\<close>

lemma deleteNote_others:
  assumes "currentNote st = Some c" and "ok r"
  shows "mset (notes (deleteNote True (Resolved r) st)) =
         mset (filter (\<lambda>n. note_id n \<noteq> note_id c) (notes st))"
  using assms
  by (simp add: deleteNote_ok notes_deleteNote_done mset_array_sort fetch_def showLoading_def)

lemma remove_by_id:
  "distinct (map note_id xs) \<Longrightarrow> c \<in> set xs \<Longrightarrow>
   add_mset c (mset (filter (\<lambda>n. note_id n \<noteq> note_id c) xs)) = mset xs"
proof (induction xs)
  case Nil
  then show ?case by simp
next
  case (Cons y ys)
  show ?case
  proof (cases "y = c")
    case True
    from Cons.prems(1) have "note_id y \<notin> set (map note_id ys)" by simp
    with True have "\<forall>n\<in>set ys. note_id n \<noteq> note_id c"
      by (metis image_eqI list.set_map)
    then have "filter (\<lambda>n. note_id n \<noteq> note_id c) ys = ys" by (simp add: filter_id_conv)
    with True show ?thesis by simp
  next
    case False
    with Cons.prems have "c \<in> set ys" "note_id y \<noteq> note_id c" by auto
    with Cons show ?thesis by simp
  qed
qed

subsection \<open>The timer through the operations\<close>

lemma renderNotesList_timer_fields:
  "timers (renderNotesList f st) = timers st"
  "saveTimeout (renderNotesList f st) = saveTimeout st"
  by (cases f; simp add: renderNotesList_def Let_def)+

lemma singleTimer_iff:
  "singleTimer st \<longleftrightarrow>
     timers st = [] \<or> (\<exists>t. timers st = [t] \<and> saveTimeout st = Some (fst t))"
  by (auto simp: singleTimer_def split: list.splits)

lemma singleTimer_cong:
  "timers st' = timers st \<and> saveTimeout st' = saveTimeout st \<Longrightarrow> singleTimer st \<Longrightarrow> singleTimer st'"
  by (simp add: singleTimer_iff)

lemma timer_fields_saveNote_begin:
  "timers (fst (saveNote_begin silent st)) = timers st
   \<and> saveTimeout (fst (saveNote_begin silent st)) = saveTimeout st"
  by (simp add: saveNote_begin_def Let_def ui_defs split: option.splits)

lemma timer_fields_clicks:
  "timers (createNewNote st) = timers st \<and> saveTimeout (createNewNote st) = saveTimeout st"
  "timers (fst (deleteNote_begin confirmed st)) = timers st
   \<and> saveTimeout (fst (deleteNote_begin confirmed st)) = saveTimeout st"
  "timers (cancelEdit st) = timers st \<and> saveTimeout (cancelEdit st) = saveTimeout st"
  "timers (searchNotes q st) = timers st \<and> saveTimeout (searchNotes q st) = saveTimeout st"
  "timers (selectNote i st) = timers st \<and> saveTimeout (selectNote i st) = saveTimeout st"
  "timers (timePasses ms st) = timers st \<and> saveTimeout (timePasses ms st) = saveTimeout st"
  by (simp_all add: createNewNote_def deleteNote_begin_def cancelEdit_def searchNotes_def
      selectNote_def timePasses_def ui_defs renderNotesList_timer_fields split: option.splits)

lemma timer_fields_settles:
  "timers (loadNotes_resume lr st) = timers st
   \<and> saveTimeout (loadNotes_resume lr st) = saveTimeout st"
  "timers (saveNote_resume silent sr st) = timers st
   \<and> saveTimeout (saveNote_resume silent sr st) = saveTimeout st"
  "timers (deleteNote_resume dr st) = timers st
   \<and> saveTimeout (deleteNote_resume dr st) = saveTimeout st"
  by (simp_all add: loadNotes_resume_def loadNotes_failed_def saveNote_resume_def
      saveNote_failed_def deleteNote_resume_def deleteNote_failed_def deleteNote_done_def
      Let_def ui_defs renderNotesList_timer_fields split: option.splits fetch_result.splits)

lemma singleTimer_autoSave: "singleTimer st \<Longrightarrow> singleTimer (autoSave st)"
  by (auto simp: singleTimer_iff autoSave_def setTimeout_def clearTimeout_def
      split: option.splits)

lemma singleTimer_timerFires: "singleTimer st \<Longrightarrow> singleTimer (fst (timerFires st))"
proof -
  assume a: "singleTimer st"
  have b: "singleTimer (st\<lparr>timers := filter (\<lambda>u. fst u \<noteq> fst t) (timers st)\<rparr>)"
    if "find (\<lambda>t. snd t \<le> clock st) (timers st) = Some t" for t
    using a that by (auto simp: singleTimer_iff split: if_splits)
  show ?thesis
  proof (cases "find (\<lambda>t. snd t \<le> clock st) (timers st)")
    case None
    then show ?thesis using a by (simp add: timerFires_def)
  next
    case (Some t)
    then show ?thesis
      using b [OF Some] singleTimer_cong [OF timer_fields_saveNote_begin]
      by (simp add: timerFires_def autoSave_timeout_def)
  qed
qed

lemma singleTimer_step: "singleTimer st \<Longrightarrow> singleTimer (step e st)"
proof (cases e)
  case TimerFires
  assume "singleTimer st"
  then show ?thesis using TimerFires by (simp add: singleTimer_timerFires)
next
  case (InputTitle v)
  assume "singleTimer st"
  then have "singleTimer (st\<lparr>noteTitle := v\<rparr>)" by (simp add: singleTimer_iff)
  then show ?thesis using InputTitle by (simp add: inputTitle_def singleTimer_autoSave)
next
  case (InputContent v)
  assume "singleTimer st"
  then have "singleTimer (st\<lparr>noteContent := v\<rparr>)" by (simp add: singleTimer_iff)
  then show ?thesis using InputContent by (simp add: inputContent_def singleTimer_autoSave)
qed (simp_all add: singleTimer_cong [OF timer_fields_saveNote_begin]
    singleTimer_cong [OF timer_fields_clicks(1)] singleTimer_cong [OF timer_fields_clicks(2)]
    singleTimer_cong [OF timer_fields_clicks(3)] singleTimer_cong [OF timer_fields_clicks(4)]
    singleTimer_cong [OF timer_fields_clicks(5)] singleTimer_cong [OF timer_fields_clicks(6)]
    singleTimer_cong [OF timer_fields_settles(1)] singleTimer_cong [OF timer_fields_settles(2)]
    singleTimer_cong [OF timer_fields_settles(3)])

lemma reachable_singleTimer: "reachable st \<Longrightarrow> singleTimer st"
proof (induction rule: reachable.induct)
  case start
  show ?case by (simp add: singleTimer_def NotesApp_def loadNotes_begin_def ui_defs)
next
  case (after st e)
  then show ?case by (simp add: singleTimer_step)
qed

lemma autoSave_restarts:
  "singleTimer st \<Longrightarrow> timers (autoSave st) = [(nextTimer st, clock st + 2000)]"
  by (auto simp: singleTimer_iff autoSave_def setTimeout_def clearTimeout_def
      split: option.splits)

subsection \<open>The example states\<close>

lemma array_sort_AB: "array_sort byUpdatedDesc [noteA, noteB] = [noteB, noteA]"
  by (simp add: array_sort_def byUpdatedDesc_def noteA_def noteB_def)

lemma loadedAB_eq:
  "loadedAB = NotesApp\<lparr>notes := [noteB, noteA],
      notesList := NoteItems [renderItem None noteB, renderItem None noteA],
      loadingIndicator := DisplayNone\<rparr>"
  by (simp add: loadedAB_def loadNotes_resume_def renderNotesList_def array_sort_AB ui_defs
      NotesApp_def loadNotes_begin_def)

lemma reachable_loadedAB: "reachable loadedAB"
  unfolding loadedAB_def by (rule reachable.after [OF reachable.start])

lemma reachable_editingA: "reachable editingA"
  unfolding editingA_def by (rule reachable.after [OF reachable_loadedAB])

text \<open>A save or a delete with nothing in between is a run of one or two steps.\<close>

lemma saveNote_steps:
  "saveNote False fr st = step (SaveSettles False fr) (step ClickSave st)
   \<or> saveNote False fr st = step ClickSave st"
  by (cases "saveNote_begin False st") (auto simp: saveNote_def split: bool.splits)

lemma reachable_saveNote:
  assumes "reachable st"
  shows "reachable (saveNote False fr st)"
proof -
  have 1: "reachable (step ClickSave st)"
    using assms by (rule reachable.after)
  then have 2: "reachable (step (SaveSettles False fr) (step ClickSave st))"
    by (rule reachable.after)
  from saveNote_steps [of fr st] show ?thesis
  proof
    assume "saveNote False fr st = step (SaveSettles False fr) (step ClickSave st)"
    with 2 show ?thesis by (simp only:)
  next
    assume "saveNote False fr st = step ClickSave st"
    with 1 show ?thesis by (simp only:)
  qed
qed

lemma deleteNote_steps:
  "deleteNote confirmed fr st = step (DeleteSettles fr) (step (ClickDelete confirmed) st)
   \<or> deleteNote confirmed fr st = step (ClickDelete confirmed) st"
  by (cases "deleteNote_begin confirmed st") (auto simp: deleteNote_def split: bool.splits)

lemma reachable_deleteNote:
  assumes "reachable st"
  shows "reachable (deleteNote confirmed fr st)"
proof -
  have 1: "reachable (step (ClickDelete confirmed) st)"
    using assms by (rule reachable.after)
  then have 2: "reachable (step (DeleteSettles fr) (step (ClickDelete confirmed) st))"
    by (rule reachable.after)
  from deleteNote_steps [of confirmed fr st] show ?thesis
  proof
    assume "deleteNote confirmed fr st =
      step (DeleteSettles fr) (step (ClickDelete confirmed) st)"
    with 2 show ?thesis by (simp only:)
  next
    assume "deleteNote confirmed fr st = step (ClickDelete confirmed) st"
    with 1 show ?thesis by (simp only:)
  qed
qed

lemma reachable_draftSaved_idle: "reachable draftSaved_idle"
  unfolding draftSaved_idle_def draftSaved_def draftTyped_def draftTitled_def draftOpened_def
  by (intro reachable.after reachable_saveNote reachable_loadedAB)

lemmas run_defs =
  NotesApp_def loadNotes_begin_def loadNotes_resume_def renderNotesList_def selectNote_def
  createNewNote_def inputTitle_def inputContent_def autoSave_def setTimeout_def
  clearTimeout_def timePasses_def Let_def array_sort_def byUpdatedDesc_def ui_defs

lemma editingA_fields:
  "notes editingA = [noteB, noteA]" "currentNote editingA = Some noteA" "isEditing editingA"
  "noteTitle editingA = ''Shopping''" "noteContent editingA = ''Milk and eggs''"
  "timers editingA = []" "requests editingA = requests NotesApp"
  by (simp_all add: editingA_def loadedAB_def run_defs noteA_def noteB_def)

lemma editedA_fields:
  "notes editedA = [noteB, noteA]" "currentNote editedA = Some noteA" "isEditing editedA"
  "noteTitle editedA = ''Shopping''" "noteContent editedA = ''Milk''"
  "timers editedA = [(1, 2000)]" "clock editedA = 0"
  by (simp_all add: editedA_def editingA_def loadedAB_def run_defs noteA_def noteB_def)

lemma editedA_idle_fields:
  "currentNote editedA_idle = Some noteA" "isEditing editedA_idle"
  "noteTitle editedA_idle = ''Shopping''" "noteContent editedA_idle = ''Milk''"
  "timers editedA_idle = [(1, 2000)]" "clock editedA_idle = 2000"
  by (simp_all add: editedA_idle_def editedA_def editingA_def loadedAB_def run_defs
      noteA_def noteB_def)

lemma draft_fields:
  "currentNote draftOpened = None" "isEditing draftOpened"
  "currentNote draftTitled = None" "isEditing draftTitled"
  "currentNote draftTyped = None" "isEditing draftTyped"
  "noteTitle draftTyped = ''Hello''" "noteContent draftTyped = ''World''"
  "timers draftTyped = [(2, 2000)]" "clock draftTyped = 0"
  "notes draftTyped = [noteB, noteA]"
  by (simp_all add: draftTyped_def draftTitled_def draftOpened_def loadedAB_def run_defs
      noteA_def noteB_def)

lemma draftTyped_idle_fields:
  "currentNote draftTyped_idle = None" "isEditing draftTyped_idle"
  "timers draftTyped_idle = [(2, 2000)]" "clock draftTyped_idle = 2000"
  by (simp_all add: draftTyped_idle_def timePasses_def draft_fields)

lemma reachable_draftTyped_idle: "reachable draftTyped_idle"
  unfolding draftTyped_idle_def draftTyped_def draftTitled_def draftOpened_def
  by (intro reachable.after reachable_loadedAB)

lemma reachable_editedA: "reachable editedA"
  unfolding editedA_def by (intro reachable.after reachable_editingA)

lemma draftBlank_fields:
  "noteTitle draftBlank = ''  ''" "notifications draftBlank = []"
  "requests draftBlank = requests NotesApp"
  by (simp_all add: draftBlank_def draftOpened_def loadedAB_def run_defs)

lemma reachable_editedA_idle: "reachable editedA_idle"
  unfolding editedA_idle_def editedA_def
  by (intro reachable.after reachable_editingA)

lemma reachable_autosaveSettled: "reachable autosaveSettled"
  unfolding autosaveSettled_def switchedToB_def autosaveSent_def
  by (intro reachable.after reachable_editedA_idle)

lemma autosaveSent_fields:
  "notes autosaveSent = [noteB, noteA]" "currentNote autosaveSent = Some noteA"
  "isEditing autosaveSent"
  "requests autosaveSent =
     requests editedA_idle
     @ [\<lparr>req_method = PUT, req_url = ''/api/notes/a'', req_body = Some (''Shopping'', ''Milk'')\<rparr>]"
  by (simp_all add: autosaveSent_def timerFires_def autoSave_timeout_def saveNote_begin_def
      editedA_idle_fields trim_def isWhiteSpace_def fetch_def noteA_def Let_def
      editedA_idle_def timePasses_def editedA_fields)

lemma switchedToB_fields:
  "notes switchedToB = [noteB, noteA]" "currentNote switchedToB = Some noteB"
  "isEditing switchedToB" "noteTitle switchedToB = ''Ideas''"
  "noteContent switchedToB = ''Write more tests''"
  "requests switchedToB = requests autosaveSent"
  by (simp_all add: switchedToB_def selectNote_def autosaveSent_fields renderNotesList_def
      array_sort_def byUpdatedDesc_def ui_defs Let_def noteA_def noteB_def)

lemma autosaveSettled_fields:
  "notes autosaveSettled = [noteA2, noteA]" "currentNote autosaveSettled = Some noteA2"
  "isEditing autosaveSettled" "noteTitle autosaveSettled = ''Ideas''"
  "noteContent autosaveSettled = ''Write more tests''"
  "requests autosaveSettled = requests autosaveSent"
  by (simp_all add: autosaveSettled_def saveNote_resume_def ok_def switchedToB_fields
      array_set_def renderNotesList_def array_sort_def byUpdatedDesc_def ui_defs Let_def
      noteA_def noteA2_def noteB_def)

lemma autosaveSettled_timers: "timers autosaveSettled = []"
  by (simp add: autosaveSettled_def switchedToB_def autosaveSent_def timer_fields_settles
      timer_fields_clicks timerFires_def autoSave_timeout_def editedA_idle_fields
      timer_fields_saveNote_begin)

lemma autosaveSettled_edited_fields:
  "currentNote autosaveSettled_edited = Some noteA2" "isEditing autosaveSettled_edited"
  "noteTitle autosaveSettled_edited = ''Ideas''"
  "noteContent autosaveSettled_edited = ''Write more tests now''"
  "requests autosaveSettled_edited = requests autosaveSettled"
  "clock autosaveSettled_edited = clock autosaveSettled + 2000"
  "timers autosaveSettled_edited =
     filter (\<lambda>t. Some (fst t) \<noteq> saveTimeout autosaveSettled) (timers autosaveSettled)
     @ [(nextTimer autosaveSettled, clock autosaveSettled + 2000)]"
  by (auto simp: autosaveSettled_edited_def timePasses_def inputContent_def autoSave_def
      setTimeout_def clearTimeout_def autosaveSettled_fields split: option.splits)

lemma autosaveSent_again_fields:
  "requests autosaveSent_again =
     requests autosaveSettled
     @ [\<lparr>req_method = PUT, req_url = ''/api/notes/a'',
         req_body = Some (''Ideas'', ''Write more tests now'')\<rparr>]"
  by (simp add: autosaveSent_again_def timerFires_def autosaveSettled_edited_fields
      autosaveSettled_timers autoSave_timeout_def saveNote_begin_def Let_def trim_def
      isWhiteSpace_def fetch_def noteA2_def)

lemma reachable_autosaveSent_again: "reachable autosaveSent_again"
  unfolding autosaveSent_again_def autosaveSettled_edited_def
  by (intro reachable.after reachable_autosaveSettled)

lemma deleteSent_fields:
  "notes deleteSent = [noteB, noteA]" "currentNote deleteSent = Some noteA" "isEditing deleteSent"
  "requests deleteSent =
     requests editingA @ [\<lparr>req_method = DELETE, req_url = ''/api/notes/a'', req_body = None\<rparr>]"
  "notifications deleteSent = []"
  by (simp_all add: deleteSent_def deleteNote_begin_def editingA_fields fetch_def showLoading_def
      noteA_def editingA_def loadedAB_def run_defs noteB_def)

lemma deleteSettled_newNote_fields:
  "notes deleteSettled_newNote = [noteB, noteA]" "currentNote deleteSettled_newNote = None"
  "isEditing deleteSettled_newNote"
  "notifications deleteSettled_newNote = [(''Failed to delete note'', error)]"
  by (simp_all add: deleteSettled_newNote_def deleteSent_newNote_def createNewNote_def
      deleteNote_resume_def deleteNote_failed_def ok_def deleteSent_fields ui_defs)

lemma deleteSettled_switchedToB_fields:
  "notes deleteSent_switchedToB = [noteB, noteA]"
  "currentNote deleteSent_switchedToB = Some noteB"
  "notes deleteSettled_switchedToB = [noteA]" "currentNote deleteSettled_switchedToB = None"
  "isEditing deleteSettled_switchedToB = False"
  "notifications deleteSettled_switchedToB = [(''Note deleted successfully'', success)]"
  by (simp_all add: deleteSettled_switchedToB_def deleteSent_switchedToB_def selectNote_def
      deleteNote_resume_def deleteNote_done_def ok_def deleteSent_fields renderNotesList_def
      array_sort_def byUpdatedDesc_def Let_def ui_defs noteA_def noteB_def)

lemma autosaveSettled_deleted_fields:
  "notes autosaveSent_deleted = [noteB]" "currentNote autosaveSent_deleted = None"
  "isEditing autosaveSent_deleted = False"
  "notes autosaveSettled_deleted = [noteA2, noteB]"
  "currentNote autosaveSettled_deleted = Some noteA2"
  "isEditing autosaveSettled_deleted = False"
  "noteForm autosaveSettled_deleted = DisplayNone"
  by (simp_all add: autosaveSettled_deleted_def autosaveSent_deleted_def deleteNote_begin_def
      deleteNote_resume_def deleteNote_done_def saveNote_resume_def ok_def autosaveSent_fields
      renderNotesList_def array_sort_def byUpdatedDesc_def Let_def ui_defs
      noteA_def noteA2_def noteB_def)

lemma deleteSent_again_fields:
  "requests deleteSent_again =
     requests autosaveSettled_deleted
     @ [\<lparr>req_method = DELETE, req_url = ''/api/notes/a'', req_body = None\<rparr>]"
  by (simp add: deleteSent_again_def deleteNote_begin_def autosaveSettled_deleted_fields
      fetch_def showLoading_def noteA2_def)

lemma reachable_deleteSettled_newNote: "reachable deleteSettled_newNote"
  unfolding deleteSettled_newNote_def deleteSent_newNote_def deleteSent_def
  by (intro reachable.after reachable_editingA)

lemma reachable_deleteSettled_switchedToB: "reachable deleteSettled_switchedToB"
  unfolding deleteSettled_switchedToB_def deleteSent_switchedToB_def deleteSent_def
  by (intro reachable.after reachable_editingA)

lemma reachable_deleteSent_again: "reachable deleteSent_again"
  unfolding deleteSent_again_def autosaveSettled_deleted_def autosaveSent_deleted_def
    autosaveSent_def
  by (intro reachable.after reachable_editedA_idle)

section \<open>The claims\<close>

subsection \<open>Saving a note that is being edited\<close>

text \<open>
  The second part of \<open>saveNote\<close> finds the slot to overwrite by the identifier of
  \<open>this.currentNote\<close> as it is when the answer arrives. Let the identifiers of the
  collection be distinct, the request resolve with a success status and a body \<open>s\<close>, and
  the editor be bound, when the answer arrives, to a note of the collection with the
  identifier of \<open>s\<close>. Then the collection holds afterwards exactly one note with that
  identifier, namely \<open>s\<close>, and the editor is bound to \<open>s\<close>; and so it is after the save
  with nothing between request and answer.
\<close>

lemma saveNote_replaces:
  assumes "ok r" and "json r = Some s"
    and "distinct (map note_id (notes st))" and "note_id s \<in> note_id ` set (notes st)"
    and "Editing c st" and "note_id c = note_id s"
  shows "filter (\<lambda>n. note_id n = note_id s) (notes (saveNote_resume silent (Resolved r) st)) = [s]
    \<and> Editing s (saveNote_resume silent (Resolved r) st)
    \<and> (trim (noteTitle st) \<noteq> [] \<and> trim (noteContent st) \<noteq> [] \<longrightarrow>
         filter (\<lambda>n. note_id n = note_id s) (notes (saveNote silent (Resolved r) st)) = [s]
         \<and> Editing s (saveNote silent (Resolved r) st))"
proof -
  have cur: "currentNote st = Some c" and ed: "isEditing st"
    using assms(5) by (simp_all add: Editing_def)
  have 1: "filter (\<lambda>n. note_id n = note_id s)
      (notes (saveNote_resume silent (Resolved r) st)) = [s]"
    using assms(1-4) cur assms(6) by (rule saveNote_resume_replaces)
  have 2: "Editing s (saveNote_resume silent (Resolved r) st)"
    using editor_saveNote_saved [OF assms(1,2), of silent st] ed by (simp add: Editing_def)
  have 3: "filter (\<lambda>n. note_id n = note_id s) (notes (saveNote silent (Resolved r) st)) = [s]
      \<and> Editing s (saveNote silent (Resolved r) st)"
    if t: "trim (noteTitle st) \<noteq> [] \<and> trim (noteContent st) \<noteq> []"
  proof -
    let ?st1 = "fst (saveNote_begin silent st)"
    have eq: "saveNote silent (Resolved r) st = saveNote_resume silent (Resolved r) ?st1"
      using t by (simp add: saveNote_valid)
    have d: "distinct (map note_id (notes ?st1))" "note_id s \<in> note_id ` set (notes ?st1)"
      using assms(3,4) by (simp_all add: notes_saveNote_begin)
    have cur1: "currentNote ?st1 = Some c" and ed1: "isEditing ?st1"
      using cur ed by (simp_all add: currentNote_saveNote_begin isEditing_saveNote_begin)
    have "filter (\<lambda>n. note_id n = note_id s)
        (notes (saveNote_resume silent (Resolved r) ?st1)) = [s]"
      using assms(1,2) d cur1 assms(6) by (rule saveNote_resume_replaces)
    moreover have "Editing s (saveNote_resume silent (Resolved r) ?st1)"
      using editor_saveNote_saved [OF assms(1,2), of silent ?st1] ed1 by (simp add: Editing_def)
    ultimately show ?thesis
      by (simp only: eq)
  qed
  from 1 2 3 show ?thesis by blast
qed

lemma saveNote_replaces_example:
  "Editing noteA editedA
   \<and> filter (\<lambda>n. note_id n = ''a'')
       (notes (saveNote False (Resolved \<lparr>status = 200, json = Some noteA2\<rparr>) editedA)) = [noteA2]
   \<and> Editing noteA2 (saveNote False (Resolved \<lparr>status = 200, json = Some noteA2\<rparr>) editedA)
   \<and> Editing noteA autosaveSent
   \<and> filter (\<lambda>n. note_id n = ''a'')
       (notes (saveNote_resume True (Resolved \<lparr>status = 200, json = Some noteA2\<rparr>) autosaveSent)) =
       [noteA2]"
proof -
  have r: "ok \<lparr>status = 200, json = Some noteA2\<rparr>"
    "json \<lparr>status = 200, json = Some noteA2\<rparr> = Some noteA2"
    by (simp_all add: ok_def)
  have i: "note_id noteA = note_id noteA2" "note_id noteA2 = ''a''"
    by (simp_all add: noteA_def noteA2_def)
  have e: "Editing noteA editedA"
    by (simp add: Editing_def editedA_fields)
  have d: "distinct (map note_id (notes editedA))"
    "note_id noteA2 \<in> note_id ` set (notes editedA)"
    by (simp_all add: editedA_fields noteA_def noteA2_def noteB_def)
  have t: "trim (noteTitle editedA) \<noteq> [] \<and> trim (noteContent editedA) \<noteq> []"
    by (simp add: editedA_fields trim_def isWhiteSpace_def)
  have 1: "filter (\<lambda>n. note_id n = note_id noteA2)
       (notes (saveNote False (Resolved \<lparr>status = 200, json = Some noteA2\<rparr>) editedA)) = [noteA2]
     \<and> Editing noteA2 (saveNote False (Resolved \<lparr>status = 200, json = Some noteA2\<rparr>) editedA)"
    using saveNote_replaces [OF r d e i(1), of False] t by blast
  have e': "Editing noteA autosaveSent"
    by (simp add: Editing_def autosaveSent_fields)
  have d': "distinct (map note_id (notes autosaveSent))"
    "note_id noteA2 \<in> note_id ` set (notes autosaveSent)"
    by (simp_all add: autosaveSent_fields noteA_def noteA2_def noteB_def)
  have 2: "filter (\<lambda>n. note_id n = note_id noteA2)
       (notes (saveNote_resume True (Resolved \<lparr>status = 200, json = Some noteA2\<rparr>) autosaveSent)) =
       [noteA2]"
    using saveNote_replaces [OF r d' e' i(1), of True] by blast
  from 1 2 e e' show ?thesis by (simp add: i(2))
qed

text \<open>
  Claim C1: after every successful save issued while the editor is bound to a note with
  identifier \<open>X\<close>, the collection holds exactly one note with identifier \<open>X\<close>, the answer
  of the server, and the editor is bound to that answer. The code misses this on the
  reachable run \<open>autosaveSettled\<close>. The editor is bound to note \<open>A\<close> when the timer sends
  the silent save \<^verbatim>\<open>PUT /api/notes/a\<close>; the user clicks note \<open>B\<close> while the request is open;
  the server answers with a note that has the identifier of \<open>A\<close>. The request is built
  from \<open>this.currentNote\<close> before the \<^verbatim>\<open>await\<close>, but the slot to overwrite is found by
  \<open>this.currentNote.id\<close> after it, and that is now the slot of \<open>B\<close>. The collection then
  holds two notes with the identifier of \<open>A\<close>, the answer and the old note; \<open>B\<close> is gone;
  the editor is bound to the answer while its fields show the title and content of \<open>B\<close>.
  When the user goes on typing, the next auto-save sends the text of \<open>B\<close> to
  \<^verbatim>\<open>PUT /api/notes/a\<close>.
\<close>

theorem autosave_replaces_selected_note:
  "reachable autosaveSettled
   \<and> Editing noteA editedA_idle
   \<and> requests autosaveSent =
       requests editedA_idle
       @ [\<lparr>req_method = PUT, req_url = ''/api/notes/a'', req_body = Some (''Shopping'', ''Milk'')\<rparr>]
   \<and> Editing noteB switchedToB
   \<and> filter (\<lambda>n. note_id n = ''a'') (notes autosaveSettled) = [noteA2, noteA]
   \<and> Editing noteA2 autosaveSettled
   \<and> noteTitle autosaveSettled = ''Ideas''
   \<and> noteContent autosaveSettled = ''Write more tests''
   \<and> reachable autosaveSent_again
   \<and> requests autosaveSent_again =
       requests autosaveSettled
       @ [\<lparr>req_method = PUT, req_url = ''/api/notes/a'',
           req_body = Some (''Ideas'', ''Write more tests now'')\<rparr>]"
  by (simp add: reachable_autosaveSettled Editing_def editedA_idle_fields autosaveSent_fields
      switchedToB_fields autosaveSettled_fields autosaveSent_again_fields
      reachable_autosaveSent_again noteA_def noteA2_def)

subsection \<open>The debounced auto-save\<close>

text \<open>
  Claim C2, as the code has it. In every state the page can reach, at most one timer is
  pending, and an edit of the title or of the content, whatever the editor state, leaves
  exactly one: a fresh timer due 2000 milliseconds later. A pending timer does nothing
  before it is due. When it is due it leaves the table, so it runs once, and it runs the
  first part of a silent save exactly when at that moment the editor is bound to a note:
  with both fields filled, the request is the update of that note with the trimmed values
  that the fields hold at that moment. With no bound note at that moment nothing is
  called.
\<close>

theorem autoSave_debounced:
  assumes "reachable st"
  shows "length (timers st) \<le> 1
    \<and> timers (inputTitle v st) = [(nextTimer st, clock st + 2000)]
    \<and> timers (inputContent v st) = [(nextTimer st, clock st + 2000)]
    \<and> (timers st = [(h, due)] \<and> clock st < due \<longrightarrow> timerFires st = (st, False))
    \<and> (timers st = [(h, due)] \<and> due \<le> clock st \<longrightarrow>
         timers (fst (timerFires st)) = []
         \<and> timerFires st =
             (if isEditing st \<and> currentNote st \<noteq> None
              then saveNote_begin True (st\<lparr>timers := []\<rparr>)
              else (st\<lparr>timers := []\<rparr>, False)))
    \<and> (timers st = [(h, due)] \<and> due \<le> clock st \<and> Editing c st
          \<and> trim (noteTitle st) \<noteq> [] \<and> trim (noteContent st) \<noteq> [] \<longrightarrow>
         timerFires st =
           (fetch PUT (''/api/notes/'' @ note_id c)
              (Some (trim (noteTitle st), trim (noteContent st))) (st\<lparr>timers := []\<rparr>), True))
    \<and> (timers st = [(h, due)] \<and> due \<le> clock st \<and> (Creating st \<or> Closed st) \<longrightarrow>
         timerFires st = (st\<lparr>timers := []\<rparr>, False))"
proof -
  have s: "singleTimer st" using assms by (rule reachable_singleTimer)
  then have "singleTimer (st\<lparr>noteTitle := v\<rparr>)" "singleTimer (st\<lparr>noteContent := v\<rparr>)"
    by (simp_all add: singleTimer_iff)
  then have 1: "timers (inputTitle v st) = [(nextTimer st, clock st + 2000)]"
    and 2: "timers (inputContent v st) = [(nextTimer st, clock st + 2000)]"
    by (simp_all add: inputTitle_def inputContent_def autoSave_restarts)
  have 3: "length (timers st) \<le> 1"
    using s by (auto simp: singleTimer_iff)
  have 4: "timers st = [(h, due)] \<and> clock st < due \<longrightarrow> timerFires st = (st, False)"
    by (simp add: timerFires_def)
  have 5: "timers st = [(h, due)] \<and> due \<le> clock st \<longrightarrow>
         timerFires st =
           (if isEditing st \<and> currentNote st \<noteq> None
            then saveNote_begin True (st\<lparr>timers := []\<rparr>)
            else (st\<lparr>timers := []\<rparr>, False))"
    by (simp add: timerFires_def autoSave_timeout_def)
  have 6: "timers st = [(h, due)] \<and> due \<le> clock st \<longrightarrow> timers (fst (timerFires st)) = []"
    using 5 timer_fields_saveNote_begin [of True "st\<lparr>timers := []\<rparr>"] by simp
  have 7: "timers st = [(h, due)] \<and> due \<le> clock st \<and> Editing c st
          \<and> trim (noteTitle st) \<noteq> [] \<and> trim (noteContent st) \<noteq> [] \<longrightarrow>
         timerFires st =
           (fetch PUT (''/api/notes/'' @ note_id c)
              (Some (trim (noteTitle st), trim (noteContent st))) (st\<lparr>timers := []\<rparr>), True)"
    using 5 by (simp add: Editing_def saveNote_begin_def Let_def)
  have 8: "timers st = [(h, due)] \<and> due \<le> clock st \<and> (Creating st \<or> Closed st) \<longrightarrow>
         timerFires st = (st\<lparr>timers := []\<rparr>, False)"
    using 5 by (auto simp: Creating_def Closed_def)
  from 1 2 3 4 5 6 7 8 show ?thesis by blast
qed

theorem autoSave_debounced_witness:
  "reachable editedA_idle
   \<and> timers editedA_idle = [(1, 2000)] \<and> clock editedA_idle = 2000
   \<and> Editing noteA editedA_idle
   \<and> timerFires editedA_idle =
       (fetch PUT ''/api/notes/a'' (Some (''Shopping'', ''Milk'')) (editedA_idle\<lparr>timers := []\<rparr>),
        True)
   \<and> timers (inputTitle ''Shop'' editedA_idle) = [(nextTimer editedA_idle, 4000)]
   \<and> clock editedA = 0 \<and> timerFires editedA = (editedA, False)
   \<and> Creating draftTyped_idle
   \<and> timerFires draftTyped_idle = (draftTyped_idle\<lparr>timers := []\<rparr>, False)"
proof -
  have r: "reachable editedA_idle"
    by (rule reachable_editedA_idle)
  have e: "Editing noteA editedA_idle"
    by (simp add: Editing_def editedA_idle_fields)
  have t: "trim (noteTitle editedA_idle) = ''Shopping''" "trim (noteContent editedA_idle) = ''Milk''"
    by (simp_all add: editedA_idle_fields trim_def isWhiteSpace_def)
  then have n: "trim (noteTitle editedA_idle) \<noteq> []" "trim (noteContent editedA_idle) \<noteq> []"
    by simp_all
  have p: "timers editedA_idle = [(1, 2000)]" "2000 \<le> clock editedA_idle"
    by (simp_all add: editedA_idle_fields)
  have "timerFires editedA_idle =
      (fetch PUT (''/api/notes/'' @ note_id noteA)
         (Some (trim (noteTitle editedA_idle), trim (noteContent editedA_idle)))
         (editedA_idle\<lparr>timers := []\<rparr>), True)"
    using autoSave_debounced [OF r, of "''Shop''" 1 2000 noteA] p e n by blast
  then have f: "timerFires editedA_idle =
      (fetch PUT ''/api/notes/a'' (Some (''Shopping'', ''Milk'')) (editedA_idle\<lparr>timers := []\<rparr>),
       True)"
    by (simp add: t noteA_def)
  have "timers (inputTitle ''Shop'' editedA_idle) =
      [(nextTimer editedA_idle, clock editedA_idle + 2000)]"
    using autoSave_debounced [OF r, of "''Shop''" 1 2000 noteA] by blast
  then have g: "timers (inputTitle ''Shop'' editedA_idle) = [(nextTimer editedA_idle, 4000)]"
    by (simp add: editedA_idle_fields)
  have q: "timers editedA = [(1, 2000)]" "clock editedA < 2000"
    by (simp_all add: editedA_fields)
  have h: "timerFires editedA = (editedA, False)"
    using autoSave_debounced [OF reachable_editedA, of "''Shop''" 1 2000 noteA] q by blast
  have c: "Creating draftTyped_idle"
    by (simp add: Creating_def draftTyped_idle_fields)
  have d: "timers draftTyped_idle = [(2, 2000)]" "2000 \<le> clock draftTyped_idle"
    by (simp_all add: draftTyped_idle_fields)
  have k: "timerFires draftTyped_idle = (draftTyped_idle\<lparr>timers := []\<rparr>, False)"
    using autoSave_debounced [OF reachable_draftTyped_idle, of "''Shop''" 2 2000 noteA] d c
    by blast
  show ?thesis
    using r e f g h c k by (simp add: editedA_idle_fields editedA_fields)
qed

text \<open>
  The claim as written fails on the run \<open>draftSaved_idle\<close>. The only edits of the run
  are made while a new note is being created. The note is then saved by the button, which
  binds the editor to it, and when the timer of the last keystroke is due it sends a silent
  update of the note.
\<close>

theorem autoSave_after_creating_counterexample:
  "reachable draftSaved_idle
   \<and> Creating draftOpened \<and> Creating draftTitled \<and> Creating draftTyped
   \<and> Editing note1 draftSaved_idle
   \<and> timerFires draftSaved_idle =
       (fetch PUT ''/api/notes/n1'' (Some (''Hello'', ''World''))
          (draftSaved_idle\<lparr>timers := []\<rparr>), True)"
proof -
  have c: "Creating draftOpened" "Creating draftTitled" "Creating draftTyped"
    by (simp_all add: Creating_def draft_fields)
  have t: "trim (noteTitle draftTyped) \<noteq> []" "trim (noteContent draftTyped) \<noteq> []"
    by (simp_all add: draft_fields trim_def isWhiteSpace_def)
  have r: "ok \<lparr>status = 201, json = Some note1\<rparr>"
    by (simp add: ok_def)
  let ?st1 = "fst (saveNote_begin False draftTyped)"
  have s: "draftSaved = saveNote_resume False (Resolved \<lparr>status = 201, json = Some note1\<rparr>) ?st1"
    unfolding draftSaved_def using t by (rule saveNote_valid)
  have cur: "currentNote draftSaved = Some note1" and ed: "isEditing draftSaved"
    unfolding s using editor_saveNote_saved [of "\<lparr>status = 201, json = Some note1\<rparr>" note1 False ?st1] r
    by (simp_all add: isEditing_saveNote_begin draft_fields)
  have tm: "timers draftSaved = [(2, 2000)]"
    unfolding s using timer_fields_settles(2) [of False _ ?st1] timer_fields_saveNote_begin [of False draftTyped]
    by (simp add: draft_fields)
  have f: "noteTitle draftSaved = ''Hello''" "noteContent draftSaved = ''World''"
    "clock draftSaved = 0"
    unfolding s
    by (simp_all add: saveNote_resume_def r saveNote_begin_def t Let_def draft_fields ui_defs
        renderNotesList_def)
  have e: "Editing note1 draftSaved_idle"
    using cur ed by (simp add: Editing_def draftSaved_idle_def timePasses_def)
  have "timerFires draftSaved_idle =
       (fetch PUT ''/api/notes/n1'' (Some (''Hello'', ''World''))
          (draftSaved_idle\<lparr>timers := []\<rparr>), True)"
    using cur ed tm f
    by (simp add: draftSaved_idle_def timePasses_def timerFires_def autoSave_timeout_def
        saveNote_begin_def Let_def trim_def isWhiteSpace_def note1_def)
  with c e reachable_draftSaved_idle show ?thesis by simp
qed

subsection \<open>Deleting the note that is being edited\<close>

text \<open>
  The delete with nothing between request and answer. When the editor is bound to a note
  \<open>c\<close> and the confirmed delete succeeds, the collection holds no note with the identifier
  of \<open>c\<close> and the editor is closed. When no note is bound, the editor closed or a new note
  being created, \<open>deleteNote\<close> returns at its first line, whatever the user and the server
  would answer.
\<close>

lemma deleteNote_removes:
  "(Editing c st \<and> ok r \<longrightarrow>
      filter (\<lambda>n. note_id n = note_id c) (notes (deleteNote True (Resolved r) st)) = []
      \<and> Closed (deleteNote True (Resolved r) st))
   \<and> (Closed st \<or> Creating st \<longrightarrow> deleteNote confirmed fr st = st)"
proof (intro conjI impI)
  assume a: "Editing c st \<and> ok r"
  then have eq: "deleteNote True (Resolved r) st =
      deleteNote_done (filter (\<lambda>n. note_id n \<noteq> note_id c) (notes st))
        (fetch DELETE (''/api/notes/'' @ note_id c) None (showLoading True st))"
    by (simp add: Editing_def deleteNote_ok)
  show "filter (\<lambda>n. note_id n = note_id c) (notes (deleteNote True (Resolved r) st)) = []"
    unfolding eq by (simp add: notes_deleteNote_done filter_empty_conv set_array_sort)
  show "Closed (deleteNote True (Resolved r) st)"
    unfolding eq by (rule Closed_deleteNote_done)
next
  assume "Closed st \<or> Creating st"
  then have "currentNote st = None"
    by (auto simp: Closed_def Creating_def)
  then show "deleteNote confirmed fr st = st"
    by (rule deleteNote_no_current)
qed

lemma deleteNote_removes_example:
  "Editing noteA editingA
   \<and> filter (\<lambda>n. note_id n = ''a'')
       (notes (deleteNote True (Resolved \<lparr>status = 204, json = None\<rparr>) editingA)) = []
   \<and> Closed (deleteNote True (Resolved \<lparr>status = 204, json = None\<rparr>) editingA)
   \<and> Creating draftTyped
   \<and> deleteNote True (Resolved \<lparr>status = 204, json = None\<rparr>) draftTyped = draftTyped"
proof -
  have e: "Editing noteA editingA"
    by (simp add: Editing_def editingA_fields)
  have r: "ok (\<lparr>status = 204, json = None\<rparr> :: unit response)"
    by (simp add: ok_def)
  have c: "Creating draftTyped"
    by (simp add: Creating_def draft_fields)
  have i: "note_id noteA = ''a''"
    by (simp add: noteA_def)
  show ?thesis
    using e r c i
      deleteNote_removes [of noteA editingA "\<lparr>status = 204, json = None\<rparr>" True
        "Resolved \<lparr>status = 204, json = None\<rparr>"]
      deleteNote_removes [of noteA draftTyped "\<lparr>status = 204, json = None\<rparr>" True
        "Resolved \<lparr>status = 204, json = None\<rparr>"]
    by simp
qed

text \<open>
  Claim C3: after a successful delete of the note with identifier \<open>X\<close> that the editor is
  bound to, the collection holds no note with identifier \<open>X\<close> and the editor is closed;
  and a delete is a no-op whenever the editor is not editing. The code misses both. The
  request is built from \<open>this.currentNote\<close> before the \<^verbatim>\<open>await\<close>, but the note to remove is
  found by \<open>this.currentNote.id\<close> after it. On the reachable run \<open>deleteSettled_newNote\<close>
  the editor is bound to note \<open>A\<close>, the user confirms the delete,
  \<^verbatim>\<open>DELETE /api/notes/a\<close> is sent, the user clicks the button for a new note while the
  request is open, and the server answers with status 204. Then \<open>this.currentNote\<close> is
  \<^verbatim>\<open>null\<close>, the filter throws, and the handler reports a failure: note \<open>A\<close> is still in the
  collection, the editor is creating a new note, and the notification says that the
  delete has failed. For the second half, \<open>deleteNote\<close> returns early only when
  \<open>this.currentNote\<close> is \<^verbatim>\<open>null\<close>; it does not read \<open>this.isEditing\<close>. In the reachable state
  \<open>autosaveSettled_deleted\<close> a note is bound, \<open>this.isEditing\<close> is false and the form is
  not displayed: the editor is not editing, and a confirmed delete sends a request.
\<close>

theorem delete_settles_after_new_note:
  "reachable deleteSettled_newNote
   \<and> Editing noteA editingA
   \<and> requests deleteSent =
       requests editingA @ [\<lparr>req_method = DELETE, req_url = ''/api/notes/a'', req_body = None\<rparr>]
   \<and> ok (\<lparr>status = 204, json = None\<rparr> :: unit response)
   \<and> filter (\<lambda>n. note_id n = ''a'') (notes deleteSettled_newNote) = [noteA]
   \<and> Creating deleteSettled_newNote
   \<and> \<not> Closed deleteSettled_newNote
   \<and> notifications deleteSettled_newNote = [(''Failed to delete note'', error)]
   \<and> reachable deleteSent_again
   \<and> currentNote autosaveSettled_deleted = Some noteA2
   \<and> isEditing autosaveSettled_deleted = False
   \<and> noteForm autosaveSettled_deleted = DisplayNone
   \<and> \<not> Editing noteA2 autosaveSettled_deleted
   \<and> requests deleteSent_again =
       requests autosaveSettled_deleted
       @ [\<lparr>req_method = DELETE, req_url = ''/api/notes/a'', req_body = None\<rparr>]
   \<and> deleteSent_again \<noteq> autosaveSettled_deleted"
proof -
  have "requests deleteSent_again \<noteq> requests autosaveSettled_deleted"
    by (simp add: deleteSent_again_fields)
  then have "deleteSent_again \<noteq> autosaveSettled_deleted"
    by auto
  then show ?thesis
    by (simp add: reachable_deleteSettled_newNote reachable_deleteSent_again Editing_def
        Creating_def Closed_def ok_def
        editingA_fields deleteSent_fields deleteSettled_newNote_fields
        autosaveSettled_deleted_fields deleteSent_again_fields noteA_def noteB_def)
qed

subsection \<open>Searching\<close>

text \<open>
  Claim C4. For every query \<open>q\<close>, \<open>searchNotes q\<close> renders the whole collection when
  \<open>q\<close> is blank, and otherwise the notes whose title or content contains \<open>q\<close> without
  regard to case. What is rendered has the same notes as that selection, each as often,
  with the most recently updated first and notes of equal date in the order of the
  collection.
\<close>

theorem searchNotes_renders:
  "let shown = (if blank q then notes st
                else filter (\<lambda>n. contains_ci (title n) q \<or> contains_ci (content n) q) (notes st));
       rendered = array_sort byUpdatedDesc shown
   in notesList (searchNotes q st) =
        (if rendered = [] then EmptyNotes
         else NoteItems (map (renderItem (currentNote st)) rendered))
      \<and> mset rendered = mset shown
      \<and> newestFirst rendered
      \<and> filter (\<lambda>n. updatedAt n = t) rendered = filter (\<lambda>n. updatedAt n = t) shown"
proof -
  have "matchesQuery q = (\<lambda>n. contains_ci (title n) q \<or> contains_ci (content n) q)"
    by (rule ext) (simp add: matchesQuery_iff)
  then have eq: "filter (matchesQuery q) (notes st) =
      filter (\<lambda>n. contains_ci (title n) q \<or> contains_ci (content n) q) (notes st)"
    by simp
  show ?thesis
    unfolding Let_def
    by (simp add: searchNotes_def trim_Nil_iff notesList_renderNotesList eq
        mset_array_sort newestFirst_array_sort array_sort_stable Let_def)
qed

theorem searchNotes_renders_witness:
  "notesList (searchNotes ''MILK'' (NotesApp\<lparr>notes := [noteA, noteB]\<rparr>)) =
     NoteItems [renderItem None noteA]
   \<and> notesList (searchNotes ''  '' (NotesApp\<lparr>notes := [noteA, noteB]\<rparr>)) =
     NoteItems [renderItem None noteB, renderItem None noteA]"
proof -
  have a: "matchesQuery ''MILK'' noteA" by code_simp
  have b: "\<not> matchesQuery ''MILK'' noteB" by code_simp
  have c: "\<not> blank ''MILK''" by (simp add: blank_def isWhiteSpace_def)
  have d: "blank ''  ''" by (simp add: blank_def isWhiteSpace_def)
  have e: "currentNote NotesApp = None" 
    by (simp add: NotesApp_def loadNotes_begin_def fetch_def showLoading_def)
  have f: "array_sort byUpdatedDesc [noteA, noteB] = [noteB, noteA]"
    by (simp add: array_sort_def byUpdatedDesc_def noteA_def noteB_def)
  have g: "array_sort byUpdatedDesc [noteA] = [noteA]"
    by (simp add: array_sort_def)
  show ?thesis
    using searchNotes_renders [of "''MILK''" "NotesApp\<lparr>notes := [noteA, noteB]\<rparr>" 0]
      searchNotes_renders [of "''  ''" "NotesApp\<lparr>notes := [noteA, noteB]\<rparr>" 0]
    by (simp add: Let_def a b c d e f g matchesQuery_iff [symmetric])
qed

subsection \<open>Saving with an empty field\<close>

text \<open>
  Claim C5. When the title or the content is empty after trimming, a save awaits no
  request and sends none. A silent save leaves the whole state as it was; a save that is
  not silent only adds the notification of the validation error.
\<close>

theorem saveNote_blank_field:
  assumes "trim (noteTitle st) = [] \<or> trim (noteContent st) = []"
  shows "snd (saveNote_begin silent st) = False
    \<and> requests (saveNote silent fr st) = requests st
    \<and> saveNote True fr st = st
    \<and> saveNote False fr st =
        st\<lparr>notifications := notifications st @ [(''Title and content are required'', error)]\<rparr>"
  using assms
  by (auto simp: saveNote_def saveNote_begin_def Let_def showError_def showNotification_def)

theorem saveNote_blank_field_witness:
  "trim (noteTitle draftBlank) = []
   \<and> saveNote True (Resolved \<lparr>status = 201, json = Some note1\<rparr>) draftBlank = draftBlank
   \<and> requests (saveNote False (Resolved \<lparr>status = 201, json = Some note1\<rparr>) draftBlank) =
       requests NotesApp
   \<and> notifications (saveNote False (Resolved \<lparr>status = 201, json = Some note1\<rparr>) draftBlank) =
       [(''Title and content are required'', error)]"
proof -
  have t: "trim (noteTitle draftBlank) = []"
    by (simp add: draftBlank_fields trim_def isWhiteSpace_def)
  then have h: "trim (noteTitle draftBlank) = [] \<or> trim (noteContent draftBlank) = []"
    by simp
  have "saveNote False (Resolved \<lparr>status = 201, json = Some note1\<rparr>) draftBlank =
      draftBlank\<lparr>notifications :=
        notifications draftBlank @ [(''Title and content are required'', error)]\<rparr>"
    using saveNote_blank_field [OF h] by blast
  then have n: "notifications (saveNote False (Resolved \<lparr>status = 201, json = Some note1\<rparr>) draftBlank) =
      [(''Title and content are required'', error)]"
    by (simp add: draftBlank_fields)
  show ?thesis
    using saveNote_blank_field [OF h, of True "Resolved \<lparr>status = 201, json = Some note1\<rparr>"]
      saveNote_blank_field [OF h, of False "Resolved \<lparr>status = 201, json = Some note1\<rparr>"] t n
    by (simp add: draftBlank_fields)
qed

subsection \<open>Loading\<close>

text \<open>
  Claim C6 asks that a response of \<^verbatim>\<open>GET /api/notes\<close> with a status outside 200 to 299
  counts as a failure: the collection stays empty and an error is shown. \<open>saveNote\<close> and
  \<open>deleteNote\<close> test \<^verbatim>\<open>response.ok\<close>; \<open>loadNotes\<close> does not. A response with status 500
  whose body is an array of notes fills the collection and shows no error.
\<close>

theorem loadNotes_ignores_status:
  "\<not> ok \<lparr>status = 500, json = Some [noteA]\<rparr>
   \<and> notes (loadNotes_resume (Resolved \<lparr>status = 500, json = Some [noteA]\<rparr>) NotesApp) = [noteA]
   \<and> notifications (loadNotes_resume (Resolved \<lparr>status = 500, json = Some [noteA]\<rparr>) NotesApp) = []"
  by (simp add: ok_def loadNotes_resume_def run_defs)

text \<open>
  The failures that \<open>loadNotes\<close> does see are a rejected request and a body that is not
  JSON. On those the collection is left as it was, one error is shown and no request is
  sent again.
\<close>

lemma loadNotes_resume_failure:
  "fr = Rejected \<or> (\<exists>r. fr = Resolved r \<and> json r = None) \<Longrightarrow>
   loadNotes_resume fr st =
     st\<lparr>notifications := notifications st @ [(''Failed to load notes'', error)],
        loadingIndicator := DisplayNone\<rparr>"
  by (auto simp: loadNotes_resume_def loadNotes_failed_def ui_defs)

subsection \<open>Searching changes nothing but the list\<close>

text \<open>
  Claim C7. In every state the page can reach, a search with any query sends no request
  and leaves the collection with its order, the editor state and the two fields of the
  editor as they were: all it changes is the markup of the rendered list. (With no
  filter, \<open>renderNotesList\<close> sorts \<^verbatim>\<open>this.notes\<close> in place; the collection of a
  reachable state is already in that order.)
\<close>

theorem searchNotes_frame:
  assumes "reachable st"
  shows "searchNotes q st = st\<lparr>notesList := notesList (searchNotes q st)\<rparr>
    \<and> requests (searchNotes q st) = requests st
    \<and> notes (searchNotes q st) = notes st
    \<and> currentNote (searchNotes q st) = currentNote st
    \<and> isEditing (searchNotes q st) = isEditing st
    \<and> noteTitle (searchNotes q st) = noteTitle st
    \<and> noteContent (searchNotes q st) = noteContent st"
proof -
  have "newestFirst (notes st)"
    using assms by (rule reachable_newestFirst)
  then have n: "notes (searchNotes q st) = notes st"
    by (simp add: searchNotes_def notes_renderNotesList_None notes_renderNotesList_Some
        array_sort_newestFirst)
  have "searchNotes q st =
      st\<lparr>notes := notes (searchNotes q st), notesList := notesList (searchNotes q st)\<rparr>"
    unfolding searchNotes_def using renderNotesList_frame by simp
  then have f: "searchNotes q st = st\<lparr>notesList := notesList (searchNotes q st)\<rparr>"
    using n by simp
  show ?thesis
    using f n by (simp add: searchNotes_def renderNotesList_fields)
qed

theorem searchNotes_frame_witness:
  "reachable editedA
   \<and> notes (searchNotes ''  '' editedA) = [noteB, noteA]
   \<and> notes (searchNotes ''milk'' editedA) = [noteB, noteA]
   \<and> requests (searchNotes ''milk'' editedA) = requests NotesApp
   \<and> currentNote (searchNotes ''milk'' editedA) = Some noteA
   \<and> noteContent (searchNotes ''milk'' editedA) = ''Milk''"
proof -
  have r: "reachable editedA"
    unfolding editedA_def by (intro reachable.after reachable_editingA)
  have q: "requests editedA = requests NotesApp"
    by (simp add: editedA_def inputContent_def autoSave_def setTimeout_def clearTimeout_def
        editingA_fields split: option.splits)
  show ?thesis
    using searchNotes_frame [OF r, of "''  ''"] searchNotes_frame [OF r, of "''milk''"] r q
    by (simp add: editedA_fields)
qed

subsection \<open>Cancelling\<close>

text \<open>
  Claim C8. While the editor is bound to a note, cancelling puts the title and the
  content of that note back into the fields and keeps the editor open and bound to the
  same note. While a new note is being created, cancelling closes the editor and shows
  the empty placeholder.
\<close>

theorem cancelEdit_reverts:
  "(Editing n st \<longrightarrow>
      noteTitle (cancelEdit st) = title n \<and> noteContent (cancelEdit st) = content n
      \<and> Editing n (cancelEdit st)
      \<and> noteForm (cancelEdit st) = noteForm st \<and> emptyState (cancelEdit st) = emptyState st
      \<and> notes (cancelEdit st) = notes st \<and> requests (cancelEdit st) = requests st)
   \<and> (Creating st \<longrightarrow>
      Closed (cancelEdit st)
      \<and> emptyState (cancelEdit st) = DisplayFlex \<and> noteForm (cancelEdit st) = DisplayNone)"
  by (simp add: Closed_def Creating_def Editing_def cancelEdit_def ui_defs)

theorem cancelEdit_reverts_witness:
  "Editing noteA editedA \<and> noteContent editedA = ''Milk''
   \<and> noteTitle (cancelEdit editedA) = ''Shopping''
   \<and> noteContent (cancelEdit editedA) = ''Milk and eggs''
   \<and> Editing noteA (cancelEdit editedA)
   \<and> Creating draftTyped \<and> Closed (cancelEdit draftTyped)
   \<and> emptyState (cancelEdit draftTyped) = DisplayFlex
   \<and> noteForm (cancelEdit draftTyped) = DisplayNone"
proof -
  have e: "Editing noteA editedA"
    by (simp add: Editing_def editedA_fields)
  have c: "Creating draftTyped"
    by (simp add: Creating_def draft_fields)
  have a: "title noteA = ''Shopping''" "content noteA = ''Milk and eggs''"
    by (simp_all add: noteA_def)
  show ?thesis
    using e c a cancelEdit_reverts [of noteA editedA] cancelEdit_reverts [of noteA draftTyped]
    by (simp add: editedA_fields)
qed

subsection \<open>Previews\<close>

text \<open>
  Claim C9. Every rendered item previews its note by the first 100 characters of the
  content, escaped for HTML, followed by \<open>...\<close> exactly when the content is longer than
  100 characters; a content of 100 characters or fewer is previewed whole, with no
  ellipsis.
\<close>

theorem preview_truncated:
  "map item_preview (shownItems (notesList (renderNotesList f st))) =
     map (\<lambda>n. if 100 < length (content n)
               then escapeHtml (take 100 (content n)) @ ''...''
               else escapeHtml (content n))
       (array_sort byUpdatedDesc (case f of None \<Rightarrow> notes st | Some g \<Rightarrow> g))"
  by (simp add: notesList_renderNotesList Let_def shownItems_def renderItem_def substring0_def)

theorem preview_truncated_witness:
  "map item_preview (shownItems (notesList (renderNotesList (Some [longNote]) NotesApp))) =
     [replicate 100 (CHR ''x'') @ ''...'']
   \<and> map item_preview (shownItems (notesList (renderNotesList (Some [exactNote]) NotesApp))) =
     [replicate 100 (CHR ''x'')]"
proof -
  have e: "escapeHtml (replicate k (CHR ''x'')) = replicate k (CHR ''x'')" for k
    by (induction k) (simp_all add: escapeHtml_def escapeChar_def)
  have s: "array_sort byUpdatedDesc [n] = [n]" for n
    by (simp add: array_sort_def)
  show ?thesis
    using preview_truncated [of "Some [longNote]" NotesApp]
      preview_truncated [of "Some [exactNote]" NotesApp]
    by (simp add: s e longNote_def exactNote_def)
qed

subsection \<open>The other notes\<close>

text \<open>
  The notes that a save or a delete leaves alone. The request of a save resolves with a
  success status and a body \<open>s\<close>, and the editor is bound, when the answer arrives, to a
  note with the identifier of \<open>s\<close>, or to none (a new note is created): the notes with
  another identifier are afterwards the same notes, each as often; and so they are after
  the save with nothing between request and answer. A successful delete of the bound note
  \<open>c\<close>, with nothing in between, leaves exactly the notes with another identifier; when
  the identifiers of the collection are distinct and \<open>c\<close> is in it, the collection loses
  \<open>c\<close> and nothing else.
\<close>

lemma others_unchanged:
  "(ok r \<and> json r = Some s
      \<and> (case currentNote st of None \<Rightarrow> True | Some c \<Rightarrow> note_id c = note_id s) \<longrightarrow>
      mset (filter (\<lambda>n. note_id n \<noteq> note_id s)
        (notes (saveNote_resume silent (Resolved r) st))) =
        mset (filter (\<lambda>n. note_id n \<noteq> note_id s) (notes st)))
   \<and> (trim (noteTitle st) \<noteq> [] \<and> trim (noteContent st) \<noteq> [] \<and> ok r \<and> json r = Some s
      \<and> (case currentNote st of None \<Rightarrow> True | Some c \<Rightarrow> note_id c = note_id s) \<longrightarrow>
      mset (filter (\<lambda>n. note_id n \<noteq> note_id s) (notes (saveNote silent (Resolved r) st))) =
        mset (filter (\<lambda>n. note_id n \<noteq> note_id s) (notes st)))
   \<and> (currentNote st = Some c \<and> ok r' \<longrightarrow>
      mset (notes (deleteNote True (Resolved r') st)) =
        mset (filter (\<lambda>n. note_id n \<noteq> note_id c) (notes st)))
   \<and> (currentNote st = Some c \<and> ok r' \<and> c \<in> set (notes st)
        \<and> distinct (map note_id (notes st)) \<longrightarrow>
      add_mset c (mset (notes (deleteNote True (Resolved r') st))) = mset (notes st))"
proof (intro conjI impI)
  assume "ok r \<and> json r = Some s
      \<and> (case currentNote st of None \<Rightarrow> True | Some c \<Rightarrow> note_id c = note_id s)"
  then have "ok r" and "json r = Some s"
    and "case currentNote st of None \<Rightarrow> True | Some c \<Rightarrow> note_id c = note_id s"
    by simp_all
  then show "mset (filter (\<lambda>n. note_id n \<noteq> note_id s)
        (notes (saveNote_resume silent (Resolved r) st))) =
        mset (filter (\<lambda>n. note_id n \<noteq> note_id s) (notes st))"
    by (rule saveNote_resume_others)
next
  assume a: "trim (noteTitle st) \<noteq> [] \<and> trim (noteContent st) \<noteq> [] \<and> ok r \<and> json r = Some s
      \<and> (case currentNote st of None \<Rightarrow> True | Some c \<Rightarrow> note_id c = note_id s)"
  let ?st1 = "fst (saveNote_begin silent st)"
  have eq: "saveNote silent (Resolved r) st = saveNote_resume silent (Resolved r) ?st1"
    using a by (simp add: saveNote_valid)
  have "ok r" and "json r = Some s"
    and "case currentNote ?st1 of None \<Rightarrow> True | Some c \<Rightarrow> note_id c = note_id s"
    using a by (simp_all add: currentNote_saveNote_begin)
  then have "mset (filter (\<lambda>n. note_id n \<noteq> note_id s)
        (notes (saveNote_resume silent (Resolved r) ?st1))) =
        mset (filter (\<lambda>n. note_id n \<noteq> note_id s) (notes ?st1))"
    by (rule saveNote_resume_others)
  then show "mset (filter (\<lambda>n. note_id n \<noteq> note_id s) (notes (saveNote silent (Resolved r) st))) =
        mset (filter (\<lambda>n. note_id n \<noteq> note_id s) (notes st))"
    by (simp only: eq notes_saveNote_begin)
next
  assume "currentNote st = Some c \<and> ok r'"
  then have "currentNote st = Some c" and "ok r'"
    by simp_all
  then show "mset (notes (deleteNote True (Resolved r') st)) =
        mset (filter (\<lambda>n. note_id n \<noteq> note_id c) (notes st))"
    by (rule deleteNote_others)
next
  assume a: "currentNote st = Some c \<and> ok r' \<and> c \<in> set (notes st)
        \<and> distinct (map note_id (notes st))"
  then have "currentNote st = Some c" and "ok r'"
    by simp_all
  then have "mset (notes (deleteNote True (Resolved r') st)) =
        mset (filter (\<lambda>n. note_id n \<noteq> note_id c) (notes st))"
    by (rule deleteNote_others)
  moreover have "add_mset c (mset (filter (\<lambda>n. note_id n \<noteq> note_id c) (notes st))) =
        mset (notes st)"
    using a by (simp only: remove_by_id)
  ultimately show "add_mset c (mset (notes (deleteNote True (Resolved r') st))) = mset (notes st)"
    by (simp only:)
qed

lemma others_unchanged_example:
  "mset (filter (\<lambda>n. note_id n \<noteq> ''a'')
      (notes (saveNote False (Resolved \<lparr>status = 200, json = Some noteA2\<rparr>) editedA))) = {#noteB#}
   \<and> mset (filter (\<lambda>n. note_id n \<noteq> ''a'')
      (notes (saveNote_resume True (Resolved \<lparr>status = 200, json = Some noteA2\<rparr>) autosaveSent))) =
      {#noteB#}
   \<and> mset (notes (deleteNote True (Resolved \<lparr>status = 204, json = None\<rparr>) editingA)) = {#noteB#}
   \<and> add_mset noteA (mset (notes (deleteNote True (Resolved \<lparr>status = 204, json = None\<rparr>) editingA))) =
       {#noteB, noteA#}"
proof -
  have i: "note_id noteA = ''a''" "note_id noteA2 = ''a''" "note_id noteB = ''b''"
    by (simp_all add: noteA_def noteA2_def noteB_def)
  have h0: "ok \<lparr>status = 200, json = Some noteA2\<rparr>
      \<and> json \<lparr>status = 200, json = Some noteA2\<rparr> = Some noteA2
      \<and> (case currentNote autosaveSent of None \<Rightarrow> True
          | Some c \<Rightarrow> note_id c = note_id noteA2)"
    by (simp add: autosaveSent_fields ok_def i)
  have h1: "trim (noteTitle editedA) \<noteq> [] \<and> trim (noteContent editedA) \<noteq> []
      \<and> ok \<lparr>status = 200, json = Some noteA2\<rparr>
      \<and> json \<lparr>status = 200, json = Some noteA2\<rparr> = Some noteA2
      \<and> (case currentNote editedA of None \<Rightarrow> True | Some c \<Rightarrow> note_id c = note_id noteA2)"
    by (simp add: editedA_fields trim_def isWhiteSpace_def ok_def i)
  have h2: "currentNote editingA = Some noteA \<and> ok \<lparr>status = 204, json = None\<rparr>"
    by (simp add: editingA_fields ok_def)
  have h3: "currentNote editingA = Some noteA \<and> ok \<lparr>status = 204, json = None\<rparr>
      \<and> noteA \<in> set (notes editingA) \<and> distinct (map note_id (notes editingA))"
    by (simp add: editingA_fields ok_def i)
  have "mset (filter (\<lambda>n. note_id n \<noteq> note_id noteA2)
      (notes (saveNote_resume True (Resolved \<lparr>status = 200, json = Some noteA2\<rparr>) autosaveSent))) =
      mset (filter (\<lambda>n. note_id n \<noteq> note_id noteA2) (notes autosaveSent))"
    using others_unchanged [of "\<lparr>status = 200, json = Some noteA2\<rparr>" noteA2 autosaveSent True noteA
        "\<lparr>status = 204, json = None\<rparr>"] h0
    by blast
  then have 0: "mset (filter (\<lambda>n. note_id n \<noteq> ''a'')
      (notes (saveNote_resume True (Resolved \<lparr>status = 200, json = Some noteA2\<rparr>) autosaveSent))) =
      {#noteB#}"
    by (simp add: i autosaveSent_fields)
  have "mset (filter (\<lambda>n. note_id n \<noteq> note_id noteA2)
      (notes (saveNote False (Resolved \<lparr>status = 200, json = Some noteA2\<rparr>) editedA))) =
      mset (filter (\<lambda>n. note_id n \<noteq> note_id noteA2) (notes editedA))"
    using others_unchanged [of "\<lparr>status = 200, json = Some noteA2\<rparr>" noteA2 editedA False noteA
        "\<lparr>status = 204, json = None\<rparr>"] h1
    by blast
  then have 1: "mset (filter (\<lambda>n. note_id n \<noteq> ''a'')
      (notes (saveNote False (Resolved \<lparr>status = 200, json = Some noteA2\<rparr>) editedA))) = {#noteB#}"
    by (simp add: i editedA_fields)
  have "mset (notes (deleteNote True (Resolved \<lparr>status = 204, json = None\<rparr>) editingA)) =
      mset (filter (\<lambda>n. note_id n \<noteq> note_id noteA) (notes editingA))"
    using others_unchanged [of "\<lparr>status = 200, json = Some noteA2\<rparr>" noteA2 editingA False noteA
        "\<lparr>status = 204, json = None\<rparr>"] h2
    by blast
  then have 2: "mset (notes (deleteNote True (Resolved \<lparr>status = 204, json = None\<rparr>) editingA)) =
      {#noteB#}"
    by (simp add: i editingA_fields)
  have "add_mset noteA (mset (notes (deleteNote True (Resolved \<lparr>status = 204, json = None\<rparr>) editingA))) =
      mset (notes editingA)"
    using others_unchanged [of "\<lparr>status = 200, json = Some noteA2\<rparr>" noteA2 editingA False noteA
        "\<lparr>status = 204, json = None\<rparr>"] h3
    by blast
  then have 3: "add_mset noteA (mset (notes (deleteNote True (Resolved \<lparr>status = 204, json = None\<rparr>) editingA))) =
      {#noteB, noteA#}"
    by (simp add: editingA_fields)
  from 0 1 2 3 show ?thesis by simp
qed

text \<open>
  Claim C10: a successful save of the note with identifier \<open>X\<close> leaves every note with
  another identifier unchanged, and a successful delete of \<open>X\<close> removes that note and no
  other. The code misses both, for the same reason: the slot to overwrite and the note to
  remove are found by \<open>this.currentNote.id\<close> as it is after the \<^verbatim>\<open>await\<close>, not as it was
  when the request was built. On the reachable run \<open>autosaveSettled\<close> the silent save of
  note \<open>A\<close> is answered after the user has selected note \<open>B\<close>: before the answer the notes
  with an identifier other than that of \<open>A\<close> are \<open>B\<close> alone, after it there is none. On
  the reachable run \<open>deleteSettled_switchedToB\<close> the delete of note \<open>A\<close> is answered after
  the user has selected note \<open>B\<close>: the request was \<^verbatim>\<open>DELETE /api/notes/a\<close>, the collection
  loses \<open>B\<close> and keeps \<open>A\<close>, and the notification says that the note has been deleted.
\<close>

theorem stale_answer_drops_selected_note:
  "reachable autosaveSettled
   \<and> notes switchedToB = [noteB, noteA]
   \<and> note_id noteB = ''b''
   \<and> notes autosaveSettled = [noteA2, noteA]
   \<and> filter (\<lambda>n. note_id n \<noteq> ''a'') (notes switchedToB) = [noteB]
   \<and> filter (\<lambda>n. note_id n \<noteq> ''a'') (notes autosaveSettled) = []
   \<and> reachable deleteSettled_switchedToB
   \<and> requests deleteSent =
       requests editingA @ [\<lparr>req_method = DELETE, req_url = ''/api/notes/a'', req_body = None\<rparr>]
   \<and> notes deleteSent_switchedToB = [noteB, noteA]
   \<and> notes deleteSettled_switchedToB = [noteA]
   \<and> notifications deleteSettled_switchedToB = [(''Note deleted successfully'', success)]"
  by (simp add: reachable_autosaveSettled switchedToB_fields autosaveSettled_fields
      reachable_deleteSettled_switchedToB deleteSent_fields deleteSettled_switchedToB_fields
      noteA_def noteA2_def noteB_def)

end
